theory Spec2Isabelle
  imports Complex_Main
begin

section \<open>JavaScript values used by the monitor\<close>

text \<open>
  The monitor is TypeScript running on Node. Its strings are modelled as \<open>string\<close>: one
  \<open>char\<close> stands for one code unit in the range 0..255 (the files under /proc are ASCII).
  Its numbers are binary64 values, modelled by \<open>jsnum\<close>: a finite number is given by its
  exact rational value, and the three special values are constructors of their own.
  Every operation that yields a number (the arithmetic operators and the conversions from
  text) computes the exact result and rounds it with \<open>roundDouble\<close>. The negative zero
  is identified with zero: \<open>===\<close> does not tell them apart, both print as \<open>0\<close>, and
  no divisor in the monitor is a negative zero (the one of \<open>parseCPUUsage\<close> is not 0
  and the one of \<open>parseMemoryUsage\<close> is read from digits with no sign).
\<close>

datatype jsnum = Fin rat | NaN | PosInf | NegInf

definition signedInf :: "bool \<Rightarrow> jsnum" where
  "signedInf negative = (if negative then NegInf else PosInf)"

subsection \<open>Rounding to binary64\<close>

text \<open>The number of binary digits of a natural number.\<close>

fun bitLength :: "nat \<Rightarrow> nat" where
  "bitLength n = (if n = 0 then 0 else Suc (bitLength (n div 2)))"

declare bitLength.simps [simp del]

text \<open>
  The binary exponent of a positive number \<open>a\<close>: the \<open>e\<close> with
  \<open>2 ^ e \<le> a < 2 ^ (e + 1)\<close>.
\<close>

definition binaryExponent :: "rat \<Rightarrow> int" where
  "binaryExponent a =
     (if 1 \<le> a then int (bitLength (nat \<lfloor>a\<rfloor>)) - 1
      else
        (let l = int (bitLength (nat \<lfloor>1 / a\<rfloor>)) - 1
         in if a = 2 powi (- l) then - l else - l - 1))"

text \<open>The nearest integer; of two nearest integers, the even one.\<close>

definition roundHalfEven :: "rat \<Rightarrow> int" where
  "roundHalfEven x =
     (let f = \<lfloor>x\<rfloor>; d = x - of_int f
      in if d < 1 / 2 then f
         else if 1 / 2 < d then f + 1
         else if even f then f else f + 1)"

text \<open>
  A positive number rounded to 53 significant bits at the exponent \<open>e\<close>, that is to
  a multiple of \<open>2 ^ (e - 52)\<close>.
\<close>

definition roundAt :: "int \<Rightarrow> rat \<Rightarrow> rat" where
  "roundAt e a = of_int (roundHalfEven (a * 2 powi (52 - e))) * 2 powi (e - 52)"

text \<open>A rounded magnitude with its sign; from \<open>2 ^ 1024\<close> on it is an infinity.\<close>

definition finiteOrInf :: "bool \<Rightarrow> rat \<Rightarrow> jsnum" where
  "finiteOrInf negative r =
     (if 2 ^ 1024 \<le> r then signedInf negative else Fin (if negative then - r else r))"

text \<open>
  The binary64 value of an exact result: round to nearest, ties to even. The exponent
  does not go below \<open>- 1022\<close>, which gives the subnormal numbers and the underflow to
  zero.
\<close>

definition roundDouble :: "rat \<Rightarrow> jsnum" where
  "roundDouble q =
     (if q = 0 then Fin 0
      else finiteOrInf (q < 0) (roundAt (max (binaryExponent \<bar>q\<bar>) (- 1022)) \<bar>q\<bar>))"

text \<open>
  A field declared \<open>number | null\<close> can hold \<open>undefined\<close> at run time, because
  \<open>parts[3]\<close> of a short array is \<open>undefined\<close>.
\<close>

datatype jsval = Null | Undefined | Num jsnum

text \<open>ToNumber of the values above, as applied by the operator \<open>-\<close>.\<close>

fun toNumber :: "jsval \<Rightarrow> jsnum" where
  "toNumber Null = Fin 0"
| "toNumber Undefined = NaN"
| "toNumber (Num x) = x"

subsection \<open>Arithmetic\<close>

fun jsadd :: "jsnum \<Rightarrow> jsnum \<Rightarrow> jsnum" where
  "jsadd NaN _ = NaN"
| "jsadd _ NaN = NaN"
| "jsadd PosInf NegInf = NaN"
| "jsadd NegInf PosInf = NaN"
| "jsadd PosInf _ = PosInf"
| "jsadd NegInf _ = NegInf"
| "jsadd _ PosInf = PosInf"
| "jsadd _ NegInf = NegInf"
| "jsadd (Fin a) (Fin b) = roundDouble (a + b)"

fun jsneg :: "jsnum \<Rightarrow> jsnum" where
  "jsneg (Fin a) = Fin (- a)"
| "jsneg NaN = NaN"
| "jsneg PosInf = NegInf"
| "jsneg NegInf = PosInf"

definition jssub :: "jsnum \<Rightarrow> jsnum \<Rightarrow> jsnum" where
  "jssub a b = jsadd a (jsneg b)"

text \<open>The sign of an infinite product or quotient; a zero counts as positive.\<close>

fun isNegative :: "jsnum \<Rightarrow> bool" where
  "isNegative (Fin a) = (a < 0)"
| "isNegative NegInf = True"
| "isNegative _ = False"

fun isInfinite :: "jsnum \<Rightarrow> bool" where
  "isInfinite PosInf = True"
| "isInfinite NegInf = True"
| "isInfinite _ = False"

fun jsmul :: "jsnum \<Rightarrow> jsnum \<Rightarrow> jsnum" where
  "jsmul NaN _ = NaN"
| "jsmul _ NaN = NaN"
| "jsmul (Fin a) (Fin b) = roundDouble (a * b)"
| "jsmul x y =
     (if x = Fin 0 \<or> y = Fin 0 then NaN
      else signedInf (isNegative x \<noteq> isNegative y))"

fun jsdiv :: "jsnum \<Rightarrow> jsnum \<Rightarrow> jsnum" where
  "jsdiv NaN _ = NaN"
| "jsdiv _ NaN = NaN"
| "jsdiv (Fin a) (Fin b) =
     (if b = 0 then (if a = 0 then NaN else signedInf (a < 0)) else roundDouble (a / b))"
| "jsdiv (Fin a) _ = Fin 0"
| "jsdiv x y =
     (if isInfinite y then NaN else signedInf (isNegative x \<noteq> isNegative y))"

subsection \<open>Characters and splitting\<close>

text \<open>
  The white space of \<open>\s\<close>, of \<open>trim\<close> and of the numeric parsers, among the code
  units below 256: tab, line feed, vertical tab, form feed, carriage return, space and
  the no-break space.
\<close>

definition isWhiteSpace :: "char \<Rightarrow> bool" where
  "isWhiteSpace c = (of_char c \<in> set [9, 10, 11, 12, 13, 32, 160 :: nat])"

definition isDigit :: "char \<Rightarrow> bool" where
  "isDigit c = (48 \<le> (of_char c :: nat) \<and> (of_char c :: nat) \<le> 57)"

definition digitVal :: "char \<Rightarrow> nat" where
  "digitVal c = of_char c - 48"

definition startsWith :: "string \<Rightarrow> string \<Rightarrow> bool" where
  "startsWith s p = (take (length p) s = p)"

text \<open>
  \<open>s.split(sep)\<close> for a separator of one code unit, which is what \<open>"\n"\<close> and
  \<open>" "\<close> are: the pieces between the occurrences of the separator, so the result of
  splitting the empty string is one empty piece.
\<close>

function split :: "char \<Rightarrow> string \<Rightarrow> string list" where
  "split sep s =
     (case dropWhile (\<lambda>c. c \<noteq> sep) s of
        [] \<Rightarrow> [s]
      | _ # rest \<Rightarrow> takeWhile (\<lambda>c. c \<noteq> sep) s # split sep rest)"
  by pat_completeness auto
termination
proof (relation "measure (\<lambda>(sep, s). length s)")
  show "wf (measure (\<lambda>(sep, s). length s))" by simp
next
  fix sep :: char and s :: string and x21 rest
  assume a: "dropWhile (\<lambda>c. c \<noteq> sep) s = x21 # rest"
  have "length (x21 # rest) \<le> length s"
    using length_dropWhile_le [of "\<lambda>c. c \<noteq> sep" s] a by simp
  then show "((sep, rest), (sep, s)) \<in> measure (\<lambda>(sep, s). length s)"
    by simp
qed

declare split.simps [simp del]

text \<open>
  \<open>s.split(/\s+/)\<close>: the pieces between the maximal runs of white space. A run at the
  start or at the end of the string leaves an empty piece there.
\<close>

function splitWhiteSpace :: "string \<Rightarrow> string list" where
  "splitWhiteSpace s =
     (case dropWhile (\<lambda>c. \<not> isWhiteSpace c) s of
        [] \<Rightarrow> [s]
      | _ # rest \<Rightarrow>
          takeWhile (\<lambda>c. \<not> isWhiteSpace c) s # splitWhiteSpace (dropWhile isWhiteSpace rest))"
  by pat_completeness auto
termination
proof (relation "measure length")
  show "wf (measure length)" by simp
next
  fix s :: string and x21 rest
  assume a: "dropWhile (\<lambda>c. \<not> isWhiteSpace c) s = x21 # rest"
  have "length (dropWhile isWhiteSpace rest) \<le> length rest"
    by (rule length_dropWhile_le)
  moreover have "length (x21 # rest) \<le> length s"
    using length_dropWhile_le [of "\<lambda>c. \<not> isWhiteSpace c" s] a by simp
  ultimately show "(dropWhile isWhiteSpace rest, s) \<in> measure length"
    by simp
qed

declare splitWhiteSpace.simps [simp del]

subsection \<open>Reading numbers\<close>

definition parseDigits :: "string \<Rightarrow> nat" where
  "parseDigits ds = foldl (\<lambda>a c. 10 * a + digitVal c) 0 ds"

text \<open>An optional sign: whether it is a minus, and the text after it.\<close>

fun readSign :: "string \<Rightarrow> bool \<times> string" where
  "readSign [] = (False, [])"
| "readSign (c # cs) =
     (if c = CHR ''-'' then (True, cs)
      else if c = CHR ''+'' then (False, cs)
      else (False, c # cs))"

text \<open>
  An optional exponent part: \<open>e\<close> or \<open>E\<close>, an optional sign and at least one digit.
  An incomplete exponent is not part of the literal.
\<close>

fun readExponent :: "string \<Rightarrow> int \<times> string" where
  "readExponent [] = (0, [])"
| "readExponent (c # cs) =
     (if c = CHR ''e'' \<or> c = CHR ''E'' then
        (let (negative, r) = readSign cs; ds = takeWhile isDigit r
         in if ds = [] then (0, c # cs)
            else ((if negative then - int (parseDigits ds) else int (parseDigits ds)),
                  dropWhile isDigit r))
      else (0, c # cs))"

text \<open>
  The longest prefix that is a \<open>StrDecimalLiteral\<close> of ECMAScript (a sign, then
  \<open>Infinity\<close> or digits with an optional fraction and an optional exponent), with the
  binary64 value of the number it denotes and the text that follows it.
\<close>

definition readDecimalLiteral :: "string \<Rightarrow> (jsnum \<times> string) option" where
  "readDecimalLiteral s =
     (let (negative, r0) = readSign s in
      if startsWith r0 ''Infinity'' then Some (signedInf negative, drop 8 r0)
      else
        let ip = takeWhile isDigit r0;
            r1 = dropWhile isDigit r0;
            dotted = (r1 \<noteq> [] \<and> hd r1 = CHR ''.'');
            fp = (if dotted then takeWhile isDigit (tl r1) else []);
            r2 = (if dotted then dropWhile isDigit (tl r1) else r1)
        in if ip = [] \<and> fp = [] then None
           else
             let (e, r3) = readExponent r2;
                 v = (of_nat (parseDigits ip) + of_nat (parseDigits fp) / 10 ^ length fp)
                     * 10 powi e
             in Some (roundDouble (if negative then - v else v), r3))"

text \<open>\<open>parseFloat(s)\<close>: leading white space is skipped, what follows the literal is ignored.\<close>

definition parseFloat :: "string \<Rightarrow> jsnum" where
  "parseFloat s =
     (case readDecimalLiteral (dropWhile isWhiteSpace s) of
        None \<Rightarrow> NaN
      | Some (v, _) \<Rightarrow> v)"

text \<open>
  \<open>Number(s)\<close>, the conversion \<open>map(Number)\<close> applies to each piece: white space
  is trimmed at both ends, the empty string is 0, a literal with a radix prefix
  (\<open>0x\<close>, \<open>0o\<close>, \<open>0b\<close>) is read in its radix, and anything that is not a whole
  numeric literal is \<open>NaN\<close>.
\<close>

definition trim :: "string \<Rightarrow> string" where
  "trim s = rev (dropWhile isWhiteSpace (rev (dropWhile isWhiteSpace s)))"

definition hexDigitVal :: "char \<Rightarrow> nat option" where
  "hexDigitVal c =
     (let n = (of_char c :: nat) in
      if 48 \<le> n \<and> n \<le> 57 then Some (n - 48)
      else if 97 \<le> n \<and> n \<le> 102 then Some (n - 87)
      else if 65 \<le> n \<and> n \<le> 70 then Some (n - 55)
      else None)"

definition radixDigit :: "nat \<Rightarrow> char \<Rightarrow> nat option" where
  "radixDigit r c =
     (case hexDigitVal c of
        None \<Rightarrow> None
      | Some d \<Rightarrow> if d < r then Some d else None)"

definition parseRadix :: "nat \<Rightarrow> string \<Rightarrow> nat" where
  "parseRadix r ds =
     foldl (\<lambda>a c. r * a + (case radixDigit r c of None \<Rightarrow> 0 | Some d \<Rightarrow> d)) 0 ds"

definition radixOfPrefix :: "string \<Rightarrow> nat option" where
  "radixOfPrefix s =
     (if startsWith s ''0x'' \<or> startsWith s ''0X'' then Some 16
      else if startsWith s ''0o'' \<or> startsWith s ''0O'' then Some 8
      else if startsWith s ''0b'' \<or> startsWith s ''0B'' then Some 2
      else None)"

definition readNonDecimalLiteral :: "string \<Rightarrow> nat option" where
  "readNonDecimalLiteral s =
     (case radixOfPrefix s of
        None \<Rightarrow> None
      | Some r \<Rightarrow>
          (let ds = drop 2 s
           in if ds \<noteq> [] \<and> list_all (\<lambda>c. radixDigit r c \<noteq> None) ds
              then Some (parseRadix r ds) else None))"

definition Number :: "string \<Rightarrow> jsnum" where
  "Number s =
     (let t = trim s in
      if t = [] then Fin 0
      else
        (case readNonDecimalLiteral t of
           Some n \<Rightarrow> roundDouble (of_nat n)
         | None \<Rightarrow>
             (case readDecimalLiteral t of
                None \<Rightarrow> NaN
              | Some (v, rest) \<Rightarrow> if rest = [] then v else NaN)))"

text \<open>
  \<open>parseInt(s)\<close> with no radix: leading white space is skipped, a sign is read, the
  prefix \<open>0x\<close> selects radix 16 and otherwise the radix is 10; the longest run of digits
  is the value, and no digit at all gives \<open>NaN\<close>.
\<close>

definition parseInt :: "string \<Rightarrow> jsnum" where
  "parseInt s =
     (let (negative, r) = readSign (dropWhile isWhiteSpace s);
          hex = (startsWith r ''0x'' \<or> startsWith r ''0X'');
          radix = (if hex then 16 else 10);
          body = (if hex then drop 2 r else r);
          ds = takeWhile (\<lambda>c. radixDigit radix c \<noteq> None) body
      in if ds = [] then NaN
         else roundDouble (if negative then - of_nat (parseRadix radix ds)
                           else of_nat (parseRadix radix ds)))"

subsection \<open>Printing numbers\<close>

definition digitChar :: "nat \<Rightarrow> char" where
  "digitChar d = ''0123456789'' ! d"

text \<open>The decimal digits of a natural number, without leading zeros.\<close>

fun digits :: "nat \<Rightarrow> string" where
  "digits n = (if n < 10 then [digitChar n] else digits (n div 10) @ [digitChar (n mod 10)])"

declare digits.simps [simp del]

text \<open>
  The decimal exponent of a positive number \<open>q\<close>: the \<open>n\<close> with
  \<open>10 ^ (n - 1) \<le> q < 10 ^ n\<close>.
\<close>

definition decimalExponent :: "rat \<Rightarrow> int" where
  "decimalExponent q =
     (if 1 \<le> q then int (length (digits (nat \<lfloor>q\<rfloor>)))
      else
        (let m = int (length (digits (nat \<lfloor>1 / q\<rfloor>)))
         in if q = 10 powi (1 - m) then 2 - m else 1 - m))"

text \<open>
  \<open>Number::toString\<close> prints the shortest decimal that reads back as the same
  binary64 value: digits \<open>s\<close> with \<open>10 ^ (k - 1) \<le> s < 10 ^ k\<close> and an exponent
  \<open>n\<close>, standing for \<open>s * 10 ^ (n - k)\<close>, with \<open>k\<close> as small as possible; of two
  such \<open>s\<close> the one nearer to the number, and the even one when they are as near.
  Only the two decimals of \<open>k\<close> digits around \<open>q\<close> can read back as \<open>q\<close>:
  \<open>nearestDigits\<close> is the nearer one and \<open>otherDigits\<close> the one on the other side.
  17 digits are enough for every binary64 value.
\<close>

definition nearestDigits :: "rat \<Rightarrow> nat \<Rightarrow> nat" where
  "nearestDigits q k =
     (let x = q * 10 powi (int k - decimalExponent q);
          lo = nat \<lfloor>x\<rfloor>;
          d = x - of_nat lo
      in if d < 1 / 2 then lo
         else if 1 / 2 < d then lo + 1
         else if even lo then lo else lo + 1)"

definition otherDigits :: "rat \<Rightarrow> nat \<Rightarrow> nat" where
  "otherDigits q k =
     (let lo = nat \<lfloor>q * 10 powi (int k - decimalExponent q)\<rfloor>
      in if nearestDigits q k = lo then lo + 1 else lo)"

definition readsBack :: "rat \<Rightarrow> nat \<Rightarrow> nat \<Rightarrow> bool" where
  "readsBack q k s = (roundDouble (of_nat s * 10 powi (decimalExponent q - int k)) = Fin q)"

text \<open>The digits with the exponent; \<open>10 ^ k\<close> is the digit 1 in the next decade.\<close>

definition withExponent :: "rat \<Rightarrow> nat \<Rightarrow> nat \<Rightarrow> nat \<times> int" where
  "withExponent q k s =
     (if s = 10 ^ k then (10 ^ (k - 1), decimalExponent q + 1) else (s, decimalExponent q))"

function shortestDecimal :: "rat \<Rightarrow> nat \<Rightarrow> nat \<times> int" where
  "shortestDecimal q k =
     (if readsBack q k (nearestDigits q k) then withExponent q k (nearestDigits q k)
      else if readsBack q k (otherDigits q k) then withExponent q k (otherDigits q k)
      else if 17 \<le> k then withExponent q k (nearestDigits q k)
      else shortestDecimal q (k + 1))"
  by pat_completeness auto
termination
  by (relation "measure (\<lambda>(q, k). 17 - k)") auto

declare shortestDecimal.simps [simp del]

text \<open>
  The significant digits of a positive number, without trailing zeros, and its decimal
  exponent \<open>n\<close>: the number is \<open>0.digits * 10 ^ n\<close>.
\<close>

definition significand :: "rat \<Rightarrow> string \<times> int" where
  "significand q =
     (let (s, n) = shortestDecimal q 1
      in (rev (dropWhile (\<lambda>c. c = CHR ''0'') (rev (digits s))), n))"

text \<open>\<open>Number::toString\<close> in radix 10, which a template literal and \<open>join\<close> apply.\<close>

definition positiveToString :: "rat \<Rightarrow> string" where
  "positiveToString q =
     (let (ds, n) = significand q; k = int (length ds) in
      if k \<le> n \<and> n \<le> 21 then ds @ replicate (nat (n - k)) CHR ''0''
      else if 0 < n \<and> n \<le> 21 then take (nat n) ds @ ''.'' @ drop (nat n) ds
      else if - 6 < n \<and> n \<le> 0 then ''0.'' @ replicate (nat (- n)) CHR ''0'' @ ds
      else
        (let e = n - 1;
             exponent = (if e < 0 then ''-'' else ''+'') @ digits (nat \<bar>e\<bar>)
         in if k = 1 then ds @ ''e'' @ exponent
            else take 1 ds @ ''.'' @ drop 1 ds @ ''e'' @ exponent))"

fun numberToString :: "jsnum \<Rightarrow> string" where
  "numberToString NaN = ''NaN''"
| "numberToString PosInf = ''Infinity''"
| "numberToString NegInf = ''-Infinity''"
| "numberToString (Fin q) =
     (if q = 0 then ''0''
      else if q < 0 then ''-'' @ positiveToString (- q)
      else positiveToString q)"

text \<open>
  \<open>x.toFixed(f)\<close>: a value that is not finite prints as \<open>Number::toString\<close> prints it;
  a finite one below \<open>10 ^ 21\<close> in magnitude is rounded to the nearest multiple of
  \<open>10 ^ - f\<close>, the larger one on a tie of the magnitude, and printed with exactly \<open>f\<close>
  digits after the point.
\<close>

definition toFixed :: "nat \<Rightarrow> jsnum \<Rightarrow> string" where
  "toFixed f x =
     (case x of
        Fin q \<Rightarrow>
          (let s = (if q < 0 then ''-'' else []);
               a = \<bar>q\<bar>
           in if 10 ^ 21 \<le> a then s @ numberToString (Fin a)
              else
                (let n = nat \<lfloor>a * 10 ^ f + 1 / 2\<rfloor>;
                     m = digits n
                 in if f \<noteq> 0 then
                      (let padded = replicate (f + 1 - length m) CHR ''0'' @ m;
                           k = length padded
                       in s @ take (k - f) padded @ ''.'' @ drop (k - f) padded)
                    else s @ m))
      | _ \<Rightarrow> numberToString x)"

subsection \<open>Arrays\<close>

text \<open>\<open>parts[i]\<close> on an array of numbers: \<open>undefined\<close> beyond the end.\<close>

definition index :: "jsnum list \<Rightarrow> nat \<Rightarrow> jsval" where
  "index xs i = (if i < length xs then Num (xs ! i) else Undefined)"

text \<open>\<open>xs.join(sep)\<close> on an array of strings.\<close>

fun join :: "string \<Rightarrow> string list \<Rightarrow> string" where
  "join sep [] = []"
| "join sep [x] = x"
| "join sep (x # y # ys) = x @ sep @ join sep (y # ys)"

text \<open>\<open>a || d\<close> where \<open>a\<close> is a string or \<open>undefined\<close>: the empty string is falsy too.\<close>

definition orElse :: "string option \<Rightarrow> string \<Rightarrow> string" where
  "orElse a d = (case a of None \<Rightarrow> d | Some s \<Rightarrow> if s = [] then d else s)"

section \<open>The monitor\<close>

record DisplayOptions =
  showCpu :: bool
  showMemory :: bool
  showLoad :: bool

text \<open>
  The state a \<open>ResourceMonitor\<close> acts on. The first five fields are the fields of the
  class. \<open>statusBarText\<close> and \<open>statusBarTooltip\<close> are the properties \<open>text\<close> and
  \<open>tooltip\<close> of its status bar item. The last three are the part of the host the class
  reaches: the interval timers that are scheduled (handle and period in milliseconds),
  the next handle \<open>setInterval\<close> hands out, and the messages passed to
  \<open>vscode.window.showErrorMessage\<close>.
\<close>

record ResourceMonitor =
  intervalId :: "nat option"
  intervalSeconds :: jsnum
  displayOptions :: DisplayOptions
  lastCpuIdle :: jsval
  lastCpuTotal :: jsval
  statusBarText :: string
  statusBarTooltip :: "string option"
  timers :: "(nat \<times> jsnum) list"
  nextTimer :: nat
  errorMessages :: "string list"

text \<open>
  The constructor, on a host with no timer scheduled and no message shown. A new status
  bar item has the empty text and no tooltip. The command the constructor registers and
  the menu it opens only choose the display options and call \<open>collectAndUpdate\<close>;
  they are left out.
\<close>

definition newResourceMonitor :: "jsnum \<Rightarrow> ResourceMonitor" where
  "newResourceMonitor seconds =
     \<lparr> intervalId = None,
       intervalSeconds = seconds,
       displayOptions = \<lparr> showCpu = True, showMemory = True, showLoad = True \<rparr>,
       lastCpuIdle = Null,
       lastCpuTotal = Null,
       statusBarText = [],
       statusBarTooltip = None,
       timers = [],
       nextTimer = 0,
       errorMessages = [] \<rparr>"

subsection \<open>Scheduling\<close>

text \<open>
  \<open>setInterval\<close> schedules a timer under a fresh handle and \<open>clearInterval\<close> removes
  the timer of a handle. A handle is an object of the host, hence never falsy: the tests
  \<open>if (this.intervalId)\<close> and \<open>this.intervalId !== null\<close> both ask whether the monitor
  holds one. Each tick of a scheduled timer is one call of \<open>collectAndUpdate\<close>.
\<close>

definition setInterval :: "jsnum \<Rightarrow> ResourceMonitor \<Rightarrow> nat \<times> ResourceMonitor" where
  "setInterval ms m =
     (nextTimer m,
      m\<lparr> timers := timers m @ [(nextTimer m, ms)], nextTimer := Suc (nextTimer m) \<rparr>)"

definition clearInterval :: "nat \<Rightarrow> ResourceMonitor \<Rightarrow> ResourceMonitor" where
  "clearInterval h m = m\<lparr> timers := filter (\<lambda>t. fst t \<noteq> h) (timers m) \<rparr>"

definition stop :: "ResourceMonitor \<Rightarrow> ResourceMonitor" where
  "stop m =
     (case intervalId m of
        None \<Rightarrow> m
      | Some h \<Rightarrow> (clearInterval h m)\<lparr> intervalId := None, statusBarText := [] \<rparr>)"

definition start :: "ResourceMonitor \<Rightarrow> ResourceMonitor" where
  "start m =
     (let m1 = (if intervalId m \<noteq> None then stop m else m);
          (h, m2) = setInterval (jsmul (intervalSeconds m1) (Fin 1000)) m1
      in m2\<lparr> intervalId := Some h \<rparr>)"

definition updateInterval :: "jsnum \<Rightarrow> ResourceMonitor \<Rightarrow> ResourceMonitor" where
  "updateInterval newIntervalSeconds m =
     (let wasRunning = (intervalId m \<noteq> None);
          m1 = (if wasRunning then stop m else m);
          m2 = m1\<lparr> intervalSeconds := newIntervalSeconds \<rparr>
      in if wasRunning then start m2 else m2)"

subsection \<open>Parsing\<close>

text \<open>
  \<open>parseCPUUsage\<close> returns the usage and the monitor with its counters updated.
  A line that \<open>find\<close> returns starts with \<open>cpu \<close>; the test \<open>!cpuLine\<close> also
  covers the empty string.
\<close>

definition parseCPUUsage :: "string \<Rightarrow> ResourceMonitor \<Rightarrow> jsnum \<times> ResourceMonitor" where
  "parseCPUUsage data m =
     (let lines = split CHR 0x0A data in
      case find (\<lambda>line. startsWith line ''cpu '') lines of
        None \<Rightarrow> (Fin 0, m)
      | Some cpuLine \<Rightarrow>
          if cpuLine = [] then (Fin 0, m)
          else
            let parts = map Number (drop 1 (splitWhiteSpace cpuLine));
                idle = index parts 3;
                total = foldl jsadd (Fin 0) parts
            in if lastCpuIdle m = Null \<or> lastCpuTotal m = Null
               then (Fin 0, m\<lparr> lastCpuIdle := idle, lastCpuTotal := Num total \<rparr>)
               else
                 let idleDiff = jssub (toNumber idle) (toNumber (lastCpuIdle m));
                     totalDiff = jssub total (toNumber (lastCpuTotal m));
                     m' = m\<lparr> lastCpuIdle := idle, lastCpuTotal := Num total \<rparr>
                 in if totalDiff = Fin 0 then (Fin 0, m')
                    else
                      let usage = jsmul (jsdiv (jssub totalDiff idleDiff) totalDiff) (Fin 100)
                      in (parseFloat (toFixed 2 usage), m'))"

text \<open>
  \<open>line.match(/:\s+(\d+)/)\<close>. \<open>matchHere\<close> is a match that starts at the head of the
  text: a colon, at least one white space and at least one digit; white space and digits
  are disjoint, so the greedy runs are the only way to match. \<open>matchFirst\<close> is the
  leftmost match, with the digits captured.
\<close>

definition matchHere :: "string \<Rightarrow> string option" where
  "matchHere s =
     (case s of
        [] \<Rightarrow> None
      | c # cs \<Rightarrow>
          if c = CHR '':'' then
            (let ds = takeWhile isDigit (dropWhile isWhiteSpace cs)
             in if takeWhile isWhiteSpace cs \<noteq> [] \<and> ds \<noteq> [] then Some ds else None)
          else None)"

fun matchFirst :: "string \<Rightarrow> string option" where
  "matchFirst [] = None"
| "matchFirst (c # cs) =
     (case matchHere (c # cs) of
        Some ds \<Rightarrow> Some ds
      | None \<Rightarrow> matchFirst cs)"

definition extractValue :: "string \<Rightarrow> string" where
  "extractValue line = (case matchFirst line of Some ds \<Rightarrow> ds | None \<Rightarrow> ''0'')"

definition parseMemoryUsage :: "string \<Rightarrow> jsnum" where
  "parseMemoryUsage data =
     (let lines = split CHR 0x0A data;
          memTotal = parseInt (extractValue
            (orElse (find (\<lambda>line. startsWith line ''MemTotal:'') lines) ''MemTotal: 0 kB''));
          memAvailable = parseInt (extractValue
            (orElse (find (\<lambda>line. startsWith line ''MemAvailable:'') lines)
               ''MemAvailable: 0 kB''));
          used = jssub memTotal memAvailable;
          usage = jsmul (jsdiv used memTotal) (Fin 100)
      in parseFloat (toFixed 2 usage))"

text \<open>
  \<open>parseLoadAverages\<close>: \<open>data.split(" ").slice(0, 3).map((avg) => parseFloat(avg))\<close>.
\<close>

definition parseLoadAverages :: "string \<Rightarrow> jsnum list" where
  "parseLoadAverages data = map parseFloat (take 3 (split CHR '' '' data))"

subsection \<open>Display\<close>

definition updateStatusBar ::
  "jsnum \<Rightarrow> jsnum \<Rightarrow> jsnum list \<Rightarrow> ResourceMonitor \<Rightarrow> ResourceMonitor" where
  "updateStatusBar cpu memory load m =
     (let parts0 = [];
          parts1 = (if showCpu (displayOptions m)
                    then parts0 @ [''CPU: '' @ numberToString cpu @ ''%''] else parts0);
          parts2 = (if showMemory (displayOptions m)
                    then parts1 @ [''MEM: '' @ numberToString memory @ ''%''] else parts1);
          parts3 = (if showLoad (displayOptions m)
                    then parts2 @ [''Load: '' @ join '', '' (map numberToString load)]
                    else parts2)
      in m\<lparr> statusBarText :=
              (if length parts3 = 0 then ''$(gear) Configure Monitor''
               else join '' | '' parts3),
            statusBarTooltip := Some
              (''Resource information of the remote server'' @ [CHR 0x0A] @
               ''CPU: '' @ numberToString cpu @ ''%'' @ [CHR 0x0A] @
               ''Memory: '' @ numberToString memory @ ''%'' @ [CHR 0x0A] @
               ''Load: '' @ join '', '' (map numberToString load) @ [CHR 0x0A, CHR 0x0A] @
               ''Click to configure displayed metrics'') \<rparr>)"

subsection \<open>Collection\<close>

text \<open>
  What a rejected read throws: an \<open>Error\<close> object with its message, or any other
  value, given by the text a template literal makes of it.
\<close>

datatype thrown = ErrorObject string | OtherValue string

text \<open>\<open>fs.readFile(path, "utf-8")\<close>: the content of the file, or what the read rejects with.\<close>

type_synonym filesystem = "string \<Rightarrow> thrown + string"

definition showErrorMessage :: "string \<Rightarrow> ResourceMonitor \<Rightarrow> ResourceMonitor" where
  "showErrorMessage message m = m\<lparr> errorMessages := errorMessages m @ [message] \<rparr>"

text \<open>The body of the \<open>try\<close> block: \<open>Inl\<close> is the value thrown out of it.\<close>

definition collectTry :: "filesystem \<Rightarrow> ResourceMonitor \<Rightarrow> thrown + ResourceMonitor" where
  "collectTry readFile m =
     (case readFile ''/proc/stat'' of
        Inl e \<Rightarrow> Inl e
      | Inr cpuData \<Rightarrow>
     (case readFile ''/proc/meminfo'' of
        Inl e \<Rightarrow> Inl e
      | Inr memData \<Rightarrow>
     (case readFile ''/proc/loadavg'' of
        Inl e \<Rightarrow> Inl e
      | Inr loadData \<Rightarrow>
          (let (cpuUsage, m1) = parseCPUUsage cpuData m;
               memoryUsage = parseMemoryUsage memData;
               loadAverages = parseLoadAverages loadData
           in Inr (updateStatusBar cpuUsage memoryUsage loadAverages m1)))))"

text \<open>\<open>error instanceof Error ? error.message : error\<close>, inside the template literal.\<close>

fun errorText :: "thrown \<Rightarrow> string" where
  "errorText (ErrorObject message) = message"
| "errorText (OtherValue s) = s"

definition collectAndUpdate :: "filesystem \<Rightarrow> ResourceMonitor \<Rightarrow> ResourceMonitor" where
  "collectAndUpdate readFile m =
     (case collectTry readFile m of
        Inr m' \<Rightarrow> m'
      | Inl error \<Rightarrow>
          showErrorMessage (''Resource collection error: '' @ errorText error) m)"

section \<open>Notions used in the statements\<close>

text \<open>
  The aggregate line of a sample, the numeric fields \<open>parseCPUUsage\<close> reads from it,
  its idle counter (the fourth field) and its total (the sum of the fields).
\<close>

definition aggregateLine :: "string \<Rightarrow> string option" where
  "aggregateLine data = find (\<lambda>line. startsWith line ''cpu '') (split CHR 0x0A data)"

definition sampleParts :: "string \<Rightarrow> jsnum list" where
  "sampleParts line = map Number (drop 1 (splitWhiteSpace line))"

definition sampleIdle :: "string \<Rightarrow> jsval" where
  "sampleIdle line = index (sampleParts line) 3"

definition sampleTotal :: "string \<Rightarrow> jsnum" where
  "sampleTotal line = foldl jsadd (Fin 0) (sampleParts line)"

text \<open>
  Two successive contents of /proc/stat, with the fields 1000, 200, 300, 4000, 500, 600,
  700, 800 and then 1500, 300, 400, 4500, 600, 700, 800, 900 on the aggregate line, each
  followed by a line of one core.
\<close>

definition statSample1 :: string where
  "statSample1 =
     ''cpu  1000 200 300 4000 500 600 700 800\<newline>cpu0 100 20 30 400 50 60 70 80''"

definition statSample2 :: string where
  "statSample2 =
     ''cpu  1500 300 400 4500 600 700 800 900\<newline>cpu0 150 30 40 450 60 70 80 90''"

text \<open>
  Contents of /proc/stat on which the exact usage is a midpoint of two decimals. After
  \<open>statSample3\<close>, on \<open>statSample4\<close> the total moves by 160 and the idle field by 137:
  the quotient 23 / 160 is no binary64 value, and the usage the code computes is
  14.374999999999998, below the midpoint 14.375. On \<open>statSample5\<close> the total moves by
  800 and the idle field by 311: the usage is 61.12499999999999, below 61.125.
\<close>

definition statSample3 :: string where
  "statSample3 = ''cpu  0 0 0 0''"

definition statSample4 :: string where
  "statSample4 = ''cpu  23 0 0 137''"

definition statSample5 :: string where
  "statSample5 = ''cpu  489 0 0 311''"

text \<open>The first line of /proc/meminfo that starts with a label.\<close>

definition memoryLine :: "string \<Rightarrow> string \<Rightarrow> string option" where
  "memoryLine label data = find (\<lambda>line. startsWith line label) (split CHR 0x0A data)"

text \<open>A content of /proc/meminfo: 16384000 kB in total, 6553600 kB available.\<close>

definition memSample :: string where
  "memSample =
     ''MemTotal:       16384000 kB\<newline>MemFree:         8192000 kB\<newline>MemAvailable:    6553600 kB''"

text \<open>
  Contents of /proc/meminfo on which the exact usage is a midpoint of two decimals:
  160 kB in total with 137 kB available (14.375), and 16384000 kB in total with
  13037568 kB available (20.425).
\<close>

definition memSample2 :: string where
  "memSample2 = ''MemTotal: 160 kB\<newline>MemAvailable: 137 kB''"

definition memSample3 :: string where
  "memSample3 = ''MemTotal:       16384000 kB\<newline>MemAvailable:   13037568 kB''"

text \<open>
  A host on which the three reads succeed, and one on which /proc/meminfo cannot be
  read.
\<close>

definition procSnapshot :: filesystem where
  "procSnapshot path =
     (if path = ''/proc/stat'' then Inr statSample1
      else if path = ''/proc/meminfo'' then Inr memSample
      else if path = ''/proc/loadavg'' then Inr ''1.25 0.75 0.50 2/123 12345''
      else Inl (ErrorObject ''ENOENT''))"

definition meminfoUnreadable :: filesystem where
  "meminfoUnreadable path =
     (if path = ''/proc/meminfo'' then Inl (ErrorObject ''EACCES: permission denied'')
      else procSnapshot path)"

text \<open>Rounding to two decimals, half away from zero.\<close>

definition roundTo2 :: "rat \<Rightarrow> rat" where
  "roundTo2 q =
     (if q < 0 then - (of_int \<lfloor>- q * 100 + 1 / 2\<rfloor> / 100)
      else of_int \<lfloor>q * 100 + 1 / 2\<rfloor> / 100)"

text \<open>A percentage: a finite number from 0 to 100.\<close>

fun isPercentage :: "jsnum \<Rightarrow> bool" where
  "isPercentage (Fin q) = (0 \<le> q \<and> q \<le> 100)"
| "isPercentage _ = False"

text \<open>
  A finite number with at most two decimals: the binary64 value of a multiple of one
  hundredth.
\<close>

fun hasTwoDecimals :: "jsnum \<Rightarrow> bool" where
  "hasTwoDecimals (Fin q) = (roundDouble (roundTo2 q) = Fin q)"
| "hasTwoDecimals _ = False"

text \<open>
  The three files a cycle reads, in the order it reads them, and the first read that
  is rejected.
\<close>

definition procFiles :: "string list" where
  "procFiles = [''/proc/stat'', ''/proc/meminfo'', ''/proc/loadavg'']"

fun firstFailure :: "filesystem \<Rightarrow> string list \<Rightarrow> thrown option" where
  "firstFailure readFile [] = None"
| "firstFailure readFile (p # ps) =
     (case readFile p of Inl e \<Rightarrow> Some e | Inr _ \<Rightarrow> firstFailure readFile ps)"

text \<open>
  The scheduler invariant: the timers scheduled on the host are exactly the one the
  monitor holds in \<open>intervalId\<close>, if it holds one.
\<close>

definition singleTimer :: "ResourceMonitor \<Rightarrow> bool" where
  "singleTimer m =
     (map fst (timers m) = (case intervalId m of None \<Rightarrow> [] | Some h \<Rightarrow> [h])
      \<and> (case intervalId m of None \<Rightarrow> True | Some h \<Rightarrow> h < nextTimer m))"

section \<open>Properties\<close>

subsection \<open>Rounding to binary64\<close>

lemma two_powi_pos: "0 < (2 :: rat) powi n"
  by (simp add: zero_less_power_int)

lemma two_powi_less_cancel: "(2 :: rat) powi m < 2 powi n \<Longrightarrow> m < n"
  using power_int_increasing [of n m "2 :: rat"] by (cases "m < n") auto

lemma two_powi_le_cancel: "(2 :: rat) powi m \<le> 2 powi n \<Longrightarrow> m \<le> n"
  using power_int_strict_increasing [of n m "2 :: rat"] by (cases "m \<le> n") auto

lemma two_powi_mult: "(2 :: rat) powi m * 2 powi n = 2 powi (m + n)"
  by (simp add: power_int_add)

lemma bitLength_pos: "0 < n \<Longrightarrow> 0 < bitLength n"
  by (subst bitLength.simps) simp

lemma bitLength_bounds: "0 < n \<Longrightarrow> 2 ^ (bitLength n - 1) \<le> n \<and> n < 2 ^ bitLength n"
proof (induction n rule: bitLength.induct)
  case (1 n)
  have bl: "bitLength n = Suc (bitLength (n div 2))"
    using "1.prems" by (subst bitLength.simps) simp
  show ?case
  proof (cases "n div 2 = 0")
    case True
    then have "n = 1"
      using "1.prems" by auto
    then show ?thesis
      by (simp add: bitLength.simps)
  next
    case False
    then have h: "0 < n div 2"
      by simp
    then obtain b where b: "bitLength (n div 2) = Suc b"
      using bitLength_pos [of "n div 2"] by (cases "bitLength (n div 2)") auto
    have "2 ^ b \<le> n div 2" and "n div 2 < 2 ^ Suc b"
      using "1.IH" "1.prems" h b by simp_all
    moreover have "n = 2 * (n div 2) + n mod 2" and "n mod 2 < 2"
      by simp_all
    ultimately have "2 * 2 ^ b \<le> n" and "n < 2 * (2 * 2 ^ b)"
      by simp_all
    then show ?thesis
      by (simp add: bl b)
  qed
qed

lemma binaryExponent_bounds:
  assumes "0 < a"
  shows "2 powi binaryExponent a \<le> a \<and> a < 2 powi (binaryExponent a + 1)"
proof (cases "1 \<le> a")
  case True
  define n where "n = nat \<lfloor>a\<rfloor>"
  have fl: "1 \<le> \<lfloor>a\<rfloor>"
    using True by simp
  then have n: "0 < n" and na: "rat_of_nat n = of_int \<lfloor>a\<rfloor>"
    by (simp_all add: n_def)
  obtain b where b: "bitLength n = Suc b"
    using bitLength_pos [OF n] by (cases "bitLength n") auto
  have e: "binaryExponent a = int b"
    using True by (simp add: binaryExponent_def n_def [symmetric] b)
  have "2 ^ b \<le> n" and "n + 1 \<le> 2 ^ Suc b"
    using bitLength_bounds [OF n] b by simp_all
  then have "rat_of_nat (2 ^ b) \<le> rat_of_nat n" and "rat_of_nat (n + 1) \<le> rat_of_nat (2 ^ Suc b)"
    by (simp_all only: of_nat_le_iff)
  then have "(2 :: rat) ^ b \<le> of_int \<lfloor>a\<rfloor>" and "of_int \<lfloor>a\<rfloor> + 1 \<le> (2 :: rat) ^ Suc b"
    by (simp_all add: na)
  moreover have "of_int \<lfloor>a\<rfloor> \<le> a" and "a < of_int \<lfloor>a\<rfloor> + 1"
    by linarith+
  ultimately have "(2 :: rat) ^ b \<le> a" and "a < (2 :: rat) ^ Suc b"
    by linarith+
  moreover have "(2 :: rat) powi int b = 2 ^ b" and "(2 :: rat) powi (int b + 1) = 2 ^ Suc b"
    using power_int_of_nat [of "2 :: rat" b] power_int_of_nat [of "2 :: rat" "Suc b"]
    by (simp_all add: add.commute)
  ultimately show ?thesis
    by (simp add: e)
next
  case False
  define c where "c = 1 / a"
  have c1: "1 < c"
    using False assms by (simp add: c_def)
  define n where "n = nat \<lfloor>c\<rfloor>"
  have fl: "1 \<le> \<lfloor>c\<rfloor>"
    using c1 by simp
  then have n: "0 < n" and nc: "rat_of_nat n = of_int \<lfloor>c\<rfloor>"
    by (simp_all add: n_def)
  obtain b where b: "bitLength n = Suc b"
    using bitLength_pos [OF n] by (cases "bitLength n") auto
  have "2 ^ b \<le> n" and "n + 1 \<le> 2 ^ Suc b"
    using bitLength_bounds [OF n] b by simp_all
  then have "rat_of_nat (2 ^ b) \<le> rat_of_nat n" and "rat_of_nat (n + 1) \<le> rat_of_nat (2 ^ Suc b)"
    by (simp_all only: of_nat_le_iff)
  then have "(2 :: rat) ^ b \<le> of_int \<lfloor>c\<rfloor>" and "of_int \<lfloor>c\<rfloor> + 1 \<le> (2 :: rat) ^ Suc b"
    by (simp_all add: nc)
  moreover have "of_int \<lfloor>c\<rfloor> \<le> c" and "c < of_int \<lfloor>c\<rfloor> + 1"
    by linarith+
  ultimately have lo: "(2 :: rat) ^ b \<le> c" and hi: "c < (2 :: rat) ^ Suc b"
    by linarith+
  have p: "(0 :: rat) < 2 ^ b" "(0 :: rat) < 2 ^ Suc b"
    by simp_all
  have a: "a = 1 / c"
    using assms by (simp add: c_def)
  have up: "a \<le> 1 / 2 ^ b"
    unfolding a using lo p(1) by (simp add: frac_le)
  have dn: "1 / 2 ^ Suc b < a"
    unfolding a using hi c1 by (simp add: frac_less2)
  have sb: "- int b - 1 = - int (Suc b)"
    by simp
  have pw: "(2 :: rat) powi (- int b) = 1 / 2 ^ b"
    "(2 :: rat) powi (- int b - 1) = 1 / 2 ^ Suc b"
    unfolding sb by (simp_all only: power_int_minus_divide power_int_of_nat)
  have e: "binaryExponent a = (if a = 2 powi (- int b) then - int b else - int b - 1)"
    using False by (simp add: binaryExponent_def c_def [symmetric] n_def [symmetric] b)
  show ?thesis
  proof (cases "a = 2 powi (- int b)")
    case True
    have e': "binaryExponent a = - int b"
      using e True by simp
    have lt: "(2 :: rat) powi (- int b) < 2 powi (- int b + 1)"
      by (rule power_int_strict_increasing) simp_all
    have "2 powi (- int b) \<le> a"
      using True by simp
    moreover have "a < 2 powi (- int b + 1)"
      using True lt by simp
    ultimately show ?thesis
      unfolding e' by blast
  next
    case neq: False
    have "a < 2 powi (- int b)"
      using up neq by (simp add: pw)
    moreover have "2 powi (- int b - 1) \<le> a"
      using dn by (simp add: pw)
    ultimately show ?thesis
      using neq by (simp add: e)
  qed
qed

lemma binaryExponent_mono:
  assumes "0 < a" and "a \<le> b"
  shows "binaryExponent a \<le> binaryExponent b"
proof -
  have "2 powi binaryExponent a \<le> a"
    using binaryExponent_bounds [OF assms(1)] by simp
  moreover have "b < 2 powi (binaryExponent b + 1)"
    using binaryExponent_bounds [of b] assms by simp
  ultimately have "(2 :: rat) powi binaryExponent a < 2 powi (binaryExponent b + 1)"
    using assms(2) by linarith
  then show ?thesis
    using two_powi_less_cancel by fastforce
qed

lemma binaryExponent_less:
  assumes "0 < a" and "a < 2 powi (e + 1)"
  shows "binaryExponent a \<le> e"
proof -
  have "2 powi binaryExponent a \<le> a"
    using binaryExponent_bounds [OF assms(1)] by simp
  then have "(2 :: rat) powi binaryExponent a < 2 powi (e + 1)"
    using assms(2) by linarith
  then show ?thesis
    using two_powi_less_cancel by fastforce
qed

lemma binaryExponent_powi: "binaryExponent (2 powi e) = e"
proof -
  have p: "(0 :: rat) < 2 powi e"
    by (rule two_powi_pos)
  have "(2 :: rat) powi binaryExponent (2 powi e) \<le> 2 powi e"
    and "(2 :: rat) powi e < 2 powi (binaryExponent (2 powi e) + 1)"
    using binaryExponent_bounds [OF p] by simp_all
  then have "binaryExponent (2 powi e) \<le> e" and "e < binaryExponent (2 powi e) + 1"
    using two_powi_le_cancel two_powi_less_cancel by blast+
  then show ?thesis
    by simp
qed

lemma roundHalfEven_of_int: "roundHalfEven (of_int k) = k"
  by (simp add: roundHalfEven_def)

lemma roundHalfEven_le:
  assumes "x \<le> of_int k"
  shows "roundHalfEven x \<le> k"
proof -
  have f: "of_int \<lfloor>x\<rfloor> \<le> x"
    by linarith
  have fk: "\<lfloor>x\<rfloor> \<le> k"
    using assms by (simp add: floor_le_iff)
  show ?thesis
  proof (cases "x - of_int \<lfloor>x\<rfloor> < 1 / 2")
    case True
    then show ?thesis
      using fk by (simp add: roundHalfEven_def Let_def)
  next
    case False
    then have "of_int \<lfloor>x\<rfloor> < (of_int k :: rat)"
      using assms by linarith
    then have "\<lfloor>x\<rfloor> + 1 \<le> k"
      by simp
    then show ?thesis
      using fk by (simp add: roundHalfEven_def Let_def)
  qed
qed

lemma roundHalfEven_ge:
  assumes "of_int k \<le> x"
  shows "k \<le> roundHalfEven x"
proof -
  have "k \<le> \<lfloor>x\<rfloor>"
    using assms by (simp add: le_floor_iff)
  then show ?thesis
    by (simp add: roundHalfEven_def Let_def)
qed

lemma roundHalfEven_err: "\<bar>of_int (roundHalfEven x) - x\<bar> \<le> 1 / 2"
proof -
  have "of_int \<lfloor>x\<rfloor> \<le> x" and "x < of_int \<lfloor>x\<rfloor> + 1"
    by linarith+
  then show ?thesis
    unfolding roundHalfEven_def Let_def by (auto simp: abs_if; linarith)
qed

lemma roundAt_scaled:
  "roundAt e a * 2 powi (52 - e) = of_int (roundHalfEven (a * 2 powi (52 - e)))"
proof -
  have "roundAt e a * 2 powi (52 - e)
      = of_int (roundHalfEven (a * 2 powi (52 - e))) * (2 powi (e - 52) * 2 powi (52 - e))"
    by (simp add: roundAt_def)
  also have "\<dots> = of_int (roundHalfEven (a * 2 powi (52 - e)))"
    by (simp only: two_powi_mult) simp
  finally show ?thesis .
qed

lemma unscale: "(x :: rat) * 2 powi (52 - e) * 2 powi (e - 52) = x"
proof -
  have "x * 2 powi (52 - e) * 2 powi (e - 52) = x * (2 powi (52 - e) * 2 powi (e - 52))"
    by simp
  also have "\<dots> = x"
    by (simp only: two_powi_mult) simp
  finally show ?thesis .
qed

lemma roundAt_exact:
  assumes "a * 2 powi (52 - e) = of_int m"
  shows "roundAt e a = a"
proof -
  have "roundAt e a = a * 2 powi (52 - e) * 2 powi (e - 52)"
    by (simp add: roundAt_def assms roundHalfEven_of_int)
  then show ?thesis
    by (simp only: unscale)
qed

lemma roundAt_le:
  assumes "a \<le> T" and "T * 2 powi (52 - e) = of_int K"
  shows "roundAt e a \<le> T"
proof -
  have "a * 2 powi (52 - e) \<le> of_int K"
    using assms two_powi_pos [of "52 - e"] by (metis less_imp_le mult_right_mono)
  then have "roundHalfEven (a * 2 powi (52 - e)) \<le> K"
    by (rule roundHalfEven_le)
  then have "(of_int (roundHalfEven (a * 2 powi (52 - e))) :: rat) \<le> of_int K"
    by simp
  then have "roundAt e a \<le> of_int K * 2 powi (e - 52)"
    unfolding roundAt_def using two_powi_pos [of "e - 52"]
    by (metis less_imp_le mult_right_mono)
  then show ?thesis
    by (simp only: assms(2) [symmetric] unscale)
qed

lemma roundAt_nonneg:
  assumes "0 \<le> a"
  shows "0 \<le> roundAt e a"
proof -
  have "0 \<le> a * 2 powi (52 - e)"
    using assms two_powi_pos [of "52 - e"] by simp
  then have "0 \<le> roundHalfEven (a * 2 powi (52 - e))"
    using roundHalfEven_ge [of 0] by simp
  then show ?thesis
    unfolding roundAt_def using two_powi_pos [of "e - 52"] by simp
qed

lemma roundAt_err: "\<bar>roundAt e a - a\<bar> \<le> 2 powi (e - 53)"
proof -
  define m where "m = roundHalfEven (a * 2 powi (52 - e))"
  have p: "(0 :: rat) < 2 powi (e - 52)"
    by (rule two_powi_pos)
  have "roundAt e a - a = (of_int m - a * 2 powi (52 - e)) * 2 powi (e - 52)"
    by (simp add: roundAt_def m_def left_diff_distrib unscale)
  then have "\<bar>roundAt e a - a\<bar> = \<bar>of_int m - a * 2 powi (52 - e)\<bar> * 2 powi (e - 52)"
    using p by (simp add: abs_mult)
  also have "\<dots> \<le> 1 / 2 * 2 powi (e - 52)"
    using roundHalfEven_err [of "a * 2 powi (52 - e)"] p
    unfolding m_def by (intro mult_right_mono) simp_all
  also have "\<dots> = 2 powi (e - 53)"
    using power_int_add_1 [of "2 :: rat" "e - 53"] by simp
  finally show ?thesis .
qed

lemma roundDouble_zero: "roundDouble 0 = Fin 0"
  by (simp add: roundDouble_def)

lemma roundDouble_pos:
  "0 < q \<Longrightarrow>
     roundDouble q = finiteOrInf False (roundAt (max (binaryExponent q) (- 1022)) q)"
  by (simp add: roundDouble_def)

lemma roundDouble_minus: "roundDouble (- q) = jsneg (roundDouble q)"
  by (cases "q = 0"; cases "0 < q") (simp_all add: roundDouble_def finiteOrInf_def signedInf_def)

lemma scaled_int_mono:
  assumes "(r :: rat) * 2 powi (52 - e) = of_int m" and "e' \<le> e"
  shows "\<exists>K. r * 2 powi (52 - e') = of_int K"
proof -
  have "r * 2 powi (52 - e') = r * (2 powi (52 - e) * 2 powi (e - e'))"
    by (simp only: two_powi_mult) simp
  also have "\<dots> = of_int m * 2 powi (e - e')"
    using assms(1) by simp
  also have "\<dots> = of_int m * 2 ^ nat (e - e')"
    using assms(2) by (simp add: power_int_nonneg_exp)
  also have "\<dots> = of_int (m * 2 ^ nat (e - e'))"
    by simp
  finally show ?thesis
    by blast
qed

lemma roundDouble_fixed_scaled:
  assumes "0 < T" and "roundDouble T = Fin T"
  shows "\<exists>K. T * 2 powi (52 - max (binaryExponent T) (- 1022)) = of_int K"
    and "T < 2 ^ 1024"
proof -
  let ?e = "max (binaryExponent T) (- 1022)"
  have f: "finiteOrInf False (roundAt ?e T) = Fin T"
    using assms by (simp only: roundDouble_pos)
  then have r: "roundAt ?e T = T" and lt: "\<not> 2 ^ 1024 \<le> roundAt ?e T"
    by (simp_all add: finiteOrInf_def signedInf_def split: if_splits)
  show "T < 2 ^ 1024"
    using r lt by simp
  have "T * 2 powi (52 - ?e) = of_int (roundHalfEven (T * 2 powi (52 - ?e)))"
    using roundAt_scaled [of ?e T] by (simp only: r)
  then show "\<exists>K. T * 2 powi (52 - ?e) = of_int K"
    by blast
qed

lemma roundDouble_exact:
  assumes "0 < r" and "r * 2 powi (52 - max (binaryExponent r) (- 1022)) = of_int K"
    and "r < 2 ^ 1024"
  shows "roundDouble r = Fin r"
  using assms roundAt_exact [of r "max (binaryExponent r) (- 1022)" K]
  by (simp add: roundDouble_pos finiteOrInf_def)

lemma roundDouble_between:
  assumes "0 \<le> x" and "x \<le> T" and "roundDouble T = Fin T"
  shows "\<exists>y. roundDouble x = Fin y \<and> 0 \<le> y \<and> y \<le> T"
proof (cases "x = 0")
  case True
  then show ?thesis
    using assms by (simp add: roundDouble_zero)
next
  case False
  then have x: "0 < x" and T: "0 < T"
    using assms by simp_all
  let ?ex = "max (binaryExponent x) (- 1022)"
  let ?eT = "max (binaryExponent T) (- 1022)"
  obtain K where K: "T * 2 powi (52 - ?eT) = of_int K"
    using roundDouble_fixed_scaled(1) [OF T assms(3)] by blast
  have lt: "T < 2 ^ 1024"
    by (rule roundDouble_fixed_scaled(2) [OF T assms(3)])
  have "?ex \<le> ?eT"
    using binaryExponent_mono [OF x assms(2)] by simp
  then obtain K' where "T * 2 powi (52 - ?ex) = of_int K'"
    using scaled_int_mono [OF K] by blast
  then have "roundAt ?ex x \<le> T"
    using roundAt_le [OF assms(2)] by blast
  moreover have "0 \<le> roundAt ?ex x"
    using roundAt_nonneg assms(1) by blast
  ultimately show ?thesis
    using lt by (simp add: roundDouble_pos [OF x] finiteOrInf_def)
qed

lemma roundDouble_idem_pos:
  assumes "0 < q" and "roundDouble q = Fin r"
  shows "roundDouble r = Fin r"
proof -
  let ?e = "max (binaryExponent q) (- 1022)"
  define m where "m = roundHalfEven (q * 2 powi (52 - ?e))"
  have f: "finiteOrInf False (roundAt ?e q) = Fin r"
    using assms by (simp only: roundDouble_pos)
  then have r: "r = roundAt ?e q" and lt: "r < 2 ^ 1024"
    by (auto simp add: finiteOrInf_def signedInf_def split: if_splits)
  have rm: "r * 2 powi (52 - ?e) = of_int m"
    unfolding r m_def by (rule roundAt_scaled)
  have r0: "0 \<le> r"
    unfolding r using assms(1) roundAt_nonneg by simp
  show ?thesis
  proof (cases "r = 0")
    case True
    then show ?thesis
      by (simp add: roundDouble_zero)
  next
    case False
    then have rpos: "0 < r"
      using r0 by simp
    have "q < 2 powi (binaryExponent q + 1)"
      using binaryExponent_bounds [OF assms(1)] by simp
    also have "\<dots> \<le> 2 powi (?e + 1)"
      by (rule power_int_increasing) simp_all
    finally have "q * 2 powi (52 - ?e) < 2 powi (?e + 1) * 2 powi (52 - ?e)"
      using two_powi_pos [of "52 - ?e"] by (simp add: mult_strict_right_mono)
    also have "\<dots> = of_int (2 ^ 53)"
      by (simp only: two_powi_mult) simp
    finally have "m \<le> 2 ^ 53"
      unfolding m_def using roundHalfEven_le less_imp_le by blast
    then have "(of_int m :: rat) \<le> of_int (2 ^ 53)"
      by (simp only: of_int_le_iff)
    then have "of_int m * 2 powi (?e - 52) \<le> (of_int (2 ^ 53) :: rat) * 2 powi (?e - 52)"
      using two_powi_pos [of "?e - 52"] by (metis less_imp_le mult_right_mono)
    moreover have "of_int m * 2 powi (?e - 52) = r"
      by (simp only: rm [symmetric] unscale)
    moreover have "(of_int (2 ^ 53) :: rat) * 2 powi (?e - 52) = 2 powi (?e + 1)"
    proof -
      have "(of_int (2 ^ 53) :: rat) = 2 powi 53"
        by simp
      then show ?thesis
        by (simp only: two_powi_mult) (simp add: add.commute)
    qed
    ultimately have le: "r \<le> 2 powi (?e + 1)"
      by simp
    show ?thesis
    proof (cases "r = 2 powi (?e + 1)")
      case True
      have be: "binaryExponent r = ?e + 1"
        unfolding True by (rule binaryExponent_powi)
      have "max (binaryExponent r) (- 1022) = ?e + 1"
        unfolding be by simp
      moreover have "r * 2 powi (52 - (?e + 1)) = of_int (2 ^ 52)"
        unfolding True by (simp only: two_powi_mult) simp
      ultimately show ?thesis
        using roundDouble_exact [OF rpos _ lt] by simp
    next
      case neq: False
      then have "r < 2 powi (?e + 1)"
        using le by simp
      then have "binaryExponent r \<le> ?e"
        using binaryExponent_less [OF rpos] by blast
      then have "max (binaryExponent r) (- 1022) \<le> ?e"
        by simp
      then obtain K where "r * 2 powi (52 - max (binaryExponent r) (- 1022)) = of_int K"
        using scaled_int_mono [OF rm] by blast
      then show ?thesis
        using roundDouble_exact [OF rpos _ lt] by blast
    qed
  qed
qed

lemma roundDouble_idem:
  assumes "roundDouble q = Fin r"
  shows "roundDouble r = Fin r"
proof -
  consider "q = 0" | "0 < q" | "q < 0"
    by linarith
  then show ?thesis
  proof cases
    case 1
    then show ?thesis
      using assms by (auto simp add: roundDouble_zero)
  next
    case 2
    then show ?thesis
      using assms by (rule roundDouble_idem_pos)
  next
    case 3
    have "roundDouble (- q) = Fin (- r)"
      using assms by (simp add: roundDouble_minus)
    then have "roundDouble (- r) = Fin (- r)"
      using 3 roundDouble_idem_pos [of "- q" "- r"] by simp
    then show ?thesis
      using roundDouble_minus [of "- r"] by simp
  qed
qed

lemma roundDouble_close:
  assumes "0 < x" and "x < 128" and "roundDouble x = Fin y"
  shows "\<bar>y - x\<bar> \<le> 2 powi (- 47)"
proof -
  let ?e = "max (binaryExponent x) (- 1022)"
  have "x < 2 powi (6 + 1)"
    using assms(2) by simp
  then have "binaryExponent x \<le> 6"
    using binaryExponent_less [OF assms(1)] by blast
  then have e: "?e - 53 \<le> - 47"
    by simp
  have "finiteOrInf False (roundAt ?e x) = Fin y"
    using assms by (simp only: roundDouble_pos)
  then have "y = roundAt ?e x"
    by (auto simp add: finiteOrInf_def signedInf_def split: if_splits)
  then have "\<bar>y - x\<bar> \<le> 2 powi (?e - 53)"
    using roundAt_err by simp
  also have "\<dots> \<le> 2 powi (- 47)"
    using e by (intro power_int_increasing) simp_all
  finally show ?thesis .
qed

lemma roundDouble_of_nat:
  assumes "n < 2 ^ 53"
  shows "roundDouble (of_nat n) = Fin (of_nat n)"
proof (cases "n = 0")
  case True
  then show ?thesis
    by (simp add: roundDouble_zero)
next
  case False
  then have pos: "(0 :: rat) < of_nat n"
    by simp
  have "rat_of_nat n < of_nat (2 ^ 53)"
    using assms by (simp only: of_nat_less_iff)
  then have "rat_of_nat n < 2 powi (52 + 1)"
    by simp
  then have up: "binaryExponent (of_nat n) \<le> 52"
    using binaryExponent_less [OF pos] by blast
  have "(1 :: rat) \<le> of_nat n"
    using False by (simp add: Suc_leI)
  then have "binaryExponent 1 \<le> binaryExponent (rat_of_nat n)"
    by (intro binaryExponent_mono) simp_all
  moreover have "binaryExponent 1 = 0"
    using binaryExponent_powi [of 0] by simp
  ultimately have lo: "0 \<le> binaryExponent (rat_of_nat n)"
    by simp
  let ?e = "max (binaryExponent (rat_of_nat n)) (- 1022)"
  have e: "0 \<le> 52 - ?e"
    using up lo by simp
  have "rat_of_nat n * 2 powi (52 - ?e) = of_nat n * 2 ^ nat (52 - ?e)"
    using e by (simp only: power_int_nonneg_exp)
  also have "\<dots> = of_int (int n * 2 ^ nat (52 - ?e))"
    by simp
  finally have "rat_of_nat n * 2 powi (52 - ?e) = of_int (int n * 2 ^ nat (52 - ?e))" .
  moreover have "rat_of_nat n < 2 ^ 1024"
  proof -
    have "rat_of_nat n < 2 ^ 53"
      using assms by (metis of_nat_less_iff of_nat_numeral of_nat_power)
    also have "\<dots> \<le> 2 ^ 1024"
      by (rule power_increasing) simp_all
    finally show ?thesis .
  qed
  ultimately show ?thesis
    using roundDouble_exact [OF pos] by blast
qed

subsection \<open>Evaluation\<close>

lemma floor_rat_numeral [simp]:
  "\<lfloor>(numeral a :: rat) / numeral b\<rfloor> = numeral a div numeral b"
  using floor_divide_of_int_eq [of "numeral a" "numeral b", where ?'a = rat] by simp

lemma floor_rat_one [simp]: "\<lfloor>(1 :: rat) / numeral b\<rfloor> = 1 div numeral b"
  using floor_divide_of_int_eq [of 1 "numeral b", where ?'a = rat] by simp

lemmas read_eval = parseFloat_def readDecimalLiteral_def startsWith_def isDigit_def
  isWhiteSpace_def digitVal_def parseDigits_def Number_def trim_def
  readNonDecimalLiteral_def radixOfPrefix_def parseInt_def radixDigit_def hexDigitVal_def
  parseRadix_def

lemmas rd_eval = roundDouble_def roundAt_def finiteOrInf_def roundHalfEven_def
  binaryExponent_def bitLength.simps signedInf_def

lemmas print_eval = toFixed_def digits.simps digitChar_def positiveToString_def
  significand_def decimalExponent_def shortestDecimal.simps nearestDigits_def
  otherDigits_def readsBack_def withExponent_def

subsection \<open>Printing with two decimals and reading back\<close>

lemma digit_cases: "d < 10 \<Longrightarrow> d \<in> {0, 1, 2, 3, 4, 5, 6, 7, 8, 9 :: nat}"
  by auto

lemma isDigit_digitChar: "d < 10 \<Longrightarrow> isDigit (digitChar d)"
  using digit_cases [of d] by (auto simp: isDigit_def digitChar_def)

lemma digitVal_digitChar: "d < 10 \<Longrightarrow> digitVal (digitChar d) = d"
  using digit_cases [of d] by (auto simp: digitVal_def digitChar_def)

lemma isDigit_not_special:
  "isDigit c \<Longrightarrow> \<not> isWhiteSpace c \<and> c \<noteq> CHR ''.'' \<and> c \<noteq> CHR ''-'' \<and> c \<noteq> CHR ''+''
     \<and> c \<noteq> CHR ''I''"
  by (auto simp: isDigit_def isWhiteSpace_def)

lemma digits_all: "list_all isDigit (digits n)"
proof (induction n rule: digits.induct)
  case (1 n)
  show ?case
  proof (cases "n < 10")
    case True
    then show ?thesis by (subst digits.simps) (simp add: isDigit_digitChar)
  next
    case False
    then show ?thesis
      using 1 by (subst digits.simps) (simp add: isDigit_digitChar)
  qed
qed

lemma digits_nonempty: "digits n \<noteq> []"
  by (subst digits.simps) simp

lemma parseDigits_append:
  "parseDigits (xs @ ys) = parseDigits xs * 10 ^ length ys + parseDigits ys"
proof (induction ys rule: rev_induct)
  case Nil
  then show ?case by (simp add: parseDigits_def)
next
  case (snoc y ys)
  have "parseDigits (xs @ ys @ [y]) = 10 * parseDigits (xs @ ys) + digitVal y"
    by (simp add: parseDigits_def)
  moreover have "parseDigits (ys @ [y]) = 10 * parseDigits ys + digitVal y"
    by (simp add: parseDigits_def)
  ultimately show ?case
    using snoc by (simp add: algebra_simps)
qed

lemma parseDigits_digits: "parseDigits (digits n) = n"
proof (induction n rule: digits.induct)
  case (1 n)
  show ?case
  proof (cases "n < 10")
    case True
    then show ?thesis
      by (subst digits.simps) (simp add: parseDigits_def digitVal_digitChar)
  next
    case False
    have "parseDigits (digits (n div 10) @ [digitChar (n mod 10)])
          = parseDigits (digits (n div 10)) * 10 + parseDigits [digitChar (n mod 10)]"
      by (simp add: parseDigits_append)
    also have "\<dots> = (n div 10) * 10 + n mod 10"
      using 1 False by (simp add: parseDigits_def digitVal_digitChar)
    finally show ?thesis
      using False by (subst digits.simps) simp
  qed
qed

lemma parseDigits_zeros: "parseDigits (replicate z CHR ''0'' @ xs) = parseDigits xs"
proof -
  have "parseDigits (replicate z CHR ''0'') = 0"
    by (induction z) (simp_all add: parseDigits_def digitVal_def)
  then show ?thesis by (simp add: parseDigits_append)
qed

lemma takeWhile_digits_dot:
  "list_all isDigit xs \<Longrightarrow> takeWhile isDigit (xs @ CHR ''.'' # ys) = xs"
  by (induction xs) (simp_all add: isDigit_def)

lemma dropWhile_digits_dot:
  "list_all isDigit xs \<Longrightarrow> dropWhile isDigit (xs @ CHR ''.'' # ys) = CHR ''.'' # ys"
  by (induction xs) (simp_all add: isDigit_def)

lemma takeWhile_all: "list_all P xs \<Longrightarrow> takeWhile P xs = xs"
  by (induction xs) simp_all

lemma dropWhile_all: "list_all P xs \<Longrightarrow> dropWhile P xs = []"
  by (induction xs) simp_all

lemma readDecimalLiteral_fixed:
  assumes ip: "list_all isDigit ip" "ip \<noteq> []" and fp: "list_all isDigit fp"
  shows "readDecimalLiteral (ip @ CHR ''.'' # fp)
         = Some (roundDouble
             (of_nat (parseDigits ip) + of_nat (parseDigits fp) / 10 ^ length fp), [])"
proof -
  obtain c cs where c: "ip = c # cs" "isDigit c"
    using ip by (cases ip) auto
  have sign: "readSign (ip @ CHR ''.'' # fp) = (False, ip @ CHR ''.'' # fp)"
    using c isDigit_not_special [of c] by simp
  have inf: "\<not> startsWith (ip @ CHR ''.'' # fp) ''Infinity''"
    using c isDigit_not_special [of c] by (auto simp: startsWith_def)
  show ?thesis
    unfolding readDecimalLiteral_def sign
    using inf ip fp
    by (simp add: takeWhile_digits_dot dropWhile_digits_dot takeWhile_all dropWhile_all)
qed

lemma readDecimalLiteral_fixed_minus:
  assumes ip: "list_all isDigit ip" "ip \<noteq> []" and fp: "list_all isDigit fp"
  shows "readDecimalLiteral (CHR ''-'' # ip @ CHR ''.'' # fp)
         = Some (roundDouble
             (- (of_nat (parseDigits ip) + of_nat (parseDigits fp) / 10 ^ length fp)), [])"
proof -
  obtain c cs where c: "ip = c # cs" "isDigit c"
    using ip by (cases ip) auto
  have inf: "\<not> startsWith (ip @ CHR ''.'' # fp) ''Infinity''"
    using c isDigit_not_special [of c] by (auto simp: startsWith_def)
  show ?thesis
    unfolding readDecimalLiteral_def
    using inf ip fp
    by (simp add: takeWhile_digits_dot dropWhile_digits_dot takeWhile_all dropWhile_all)
qed

text \<open>The digits \<open>toFixed(2)\<close> prints for the scaled magnitude \<open>n\<close>.\<close>

lemma fixed_digits:
  fixes n :: nat
  defines "padded \<equiv> replicate (2 + 1 - length (digits n)) CHR ''0'' @ digits n"
  defines "ip \<equiv> take (length padded - 2) padded"
  defines "fp \<equiv> drop (length padded - 2) padded"
  shows "list_all isDigit ip" and "ip \<noteq> []" and "list_all isDigit fp" and "length fp = 2"
    and "rat_of_nat (parseDigits ip) + rat_of_nat (parseDigits fp) / 10 ^ length fp
         = rat_of_nat n / 100"
proof -
  have all: "list_all isDigit padded"
    unfolding padded_def using digits_all [of n]
    by (auto simp: list_all_iff isDigit_def)
  have len: "3 \<le> length padded"
    unfolding padded_def by simp
  have val: "parseDigits padded = n"
    unfolding padded_def by (simp add: parseDigits_zeros parseDigits_digits)
  show "list_all isDigit ip" and "list_all isDigit fp"
    using all unfolding ip_def fp_def list_all_iff
    by (auto dest: in_set_takeD in_set_dropD)
  show "ip \<noteq> []"
    using len unfolding ip_def by auto
  show l2: "length fp = 2"
    using len unfolding fp_def by simp
  have "padded = ip @ fp"
    unfolding ip_def fp_def by simp
  then have "n = parseDigits ip * 100 + parseDigits fp"
    using val l2 parseDigits_append [of ip fp] by simp
  then have "rat_of_nat n = rat_of_nat (parseDigits ip) * 100 + rat_of_nat (parseDigits fp)"
    by (metis of_nat_add of_nat_mult of_nat_numeral)
  then show "rat_of_nat (parseDigits ip) + rat_of_nat (parseDigits fp) / 10 ^ length fp
         = rat_of_nat n / 100"
    using l2 by (simp add: field_simps)
qed

lemma not_ws_minus: "\<not> isWhiteSpace CHR ''-''"
  by (simp add: isWhiteSpace_def)

lemma parseFloat_toFixed2:
  assumes "\<bar>q\<bar> < 10 ^ 21"
  shows "parseFloat (toFixed 2 (Fin q)) = roundDouble (roundTo2 q)"
proof -
  define n where "n = nat \<lfloor>\<bar>q\<bar> * 100 + 1 / 2\<rfloor>"
  define padded where "padded = replicate (2 + 1 - length (digits n)) CHR ''0'' @ digits n"
  define ip where "ip = take (length padded - 2) padded"
  define fp where "fp = drop (length padded - 2) padded"
  note fd = fixed_digits [of n, folded padded_def, folded ip_def fp_def]
  have pos: "0 \<le> \<lfloor>\<bar>q\<bar> * 100 + 1 / 2\<rfloor>"
    by simp
  then have n: "rat_of_nat n = of_int \<lfloor>\<bar>q\<bar> * 100 + 1 / 2\<rfloor>"
    unfolding n_def by simp
  have tf: "toFixed 2 (Fin q) = (if q < 0 then ''-'' else []) @ ip @ CHR ''.'' # fp"
    unfolding ip_def fp_def padded_def n_def
    using assms by (simp add: toFixed_def Let_def)
  obtain c cs where c: "ip = c # cs" "isDigit c"
    using fd(1,2) by (cases ip) auto
  show ?thesis
  proof (cases "q < 0")
    case True
    have "readDecimalLiteral (CHR ''-'' # ip @ CHR ''.'' # fp)
          = Some (roundDouble (- (rat_of_nat n / 100)), [])"
      by (simp only: readDecimalLiteral_fixed_minus [OF fd(1,2,3)] fd(5))
    then have "parseFloat (toFixed 2 (Fin q)) = roundDouble (- (rat_of_nat n / 100))"
      using True by (simp add: tf parseFloat_def not_ws_minus)
    then show ?thesis
      using True n by (simp add: roundTo2_def abs_if)
  next
    case False
    have "dropWhile isWhiteSpace (ip @ CHR ''.'' # fp) = ip @ CHR ''.'' # fp"
      using c isDigit_not_special [of c] by simp
    moreover have "readDecimalLiteral (ip @ CHR ''.'' # fp)
          = Some (roundDouble (rat_of_nat n / 100), [])"
      by (simp only: readDecimalLiteral_fixed [OF fd(1,2,3)] fd(5))
    ultimately have "parseFloat (toFixed 2 (Fin q)) = roundDouble (rat_of_nat n / 100)"
      using False by (simp add: tf parseFloat_def)
    then show ?thesis
      using False n by (simp add: roundTo2_def abs_if)
  qed
qed

subsection \<open>Load averages\<close>

lemma split_not_Nil: "split sep s \<noteq> []"
  by (subst split.simps) (simp split: list.split)

text \<open>
  C10. For every input string, \<open>parseLoadAverages\<close> returns between one and three
  entries; splitting on a space gives at least one piece, so the result is never empty,
  and for the empty string it is the single entry \<open>NaN\<close>.
\<close>

theorem parseLoadAverages_length:
  "1 \<le> length (parseLoadAverages data) \<and> length (parseLoadAverages data) \<le> 3
   \<and> parseLoadAverages [] = [NaN]"
proof -
  have "0 < length (split CHR '' '' data)"
    using split_not_Nil [of "CHR '' ''" data] by simp
  then have "1 \<le> length (parseLoadAverages data)"
    by (simp add: parseLoadAverages_def Suc_le_eq)
  moreover have "length (parseLoadAverages data) \<le> 3"
    by (simp add: parseLoadAverages_def)
  moreover have "parseLoadAverages [] = [NaN]"
    by (simp add: parseLoadAverages_def split.simps parseFloat_def readDecimalLiteral_def
        startsWith_def)
  ultimately show ?thesis by blast
qed

text \<open>
  C7. \<open>parseLoadAverages\<close> splits its input on single spaces, keeps the first three
  pieces and reads each with \<open>parseFloat\<close>, so it returns as many entries as there are
  pieces, up to three; a piece that is no number gives \<open>NaN\<close>. The input
  \<open>1.25 0.75 0.50 2/123 12345\<close> gives 1.25, 0.75 and 0.5, and the input \<open>invalid\<close>
  gives one entry, \<open>NaN\<close>.
\<close>

theorem parseLoadAverages_examples:
  "parseLoadAverages data = map parseFloat (take 3 (split CHR '' '' data))
   \<and> length (parseLoadAverages data) = min 3 (length (split CHR '' '' data))
   \<and> parseLoadAverages ''1.25 0.75 0.50 2/123 12345'' = [Fin (5 / 4), Fin (3 / 4), Fin (1 / 2)]
   \<and> parseLoadAverages ''invalid'' = [NaN]"
proof -
  have "parseLoadAverages ''1.25 0.75 0.50 2/123 12345''
        = [roundDouble (5 / 4), roundDouble (3 / 4), roundDouble (1 / 2)]"
    by (simp add: parseLoadAverages_def split.simps read_eval)
  then have "parseLoadAverages ''1.25 0.75 0.50 2/123 12345''
        = [Fin (5 / 4), Fin (3 / 4), Fin (1 / 2)]"
    by (simp add: rd_eval)
  moreover have "parseLoadAverages ''invalid'' = [NaN]"
    by (simp add: parseLoadAverages_def split.simps read_eval)
  moreover have "length (parseLoadAverages data) = min 3 (length (split CHR '' '' data))"
    by (simp add: parseLoadAverages_def min.commute)
  ultimately show ?thesis
    by (simp add: parseLoadAverages_def)
qed

subsection \<open>Display\<close>

text \<open>
  C8. For the sample with CPU 50, memory 30 and load averages 1.0, 0.75 and 0.5, the
  status text with the three display flags enabled is exactly
  \<open>CPU: 50% | MEM: 30% | Load: 1, 0.75, 0.5\<close>. For every sample and every choice of
  flags the text is the enabled segments in the order CPU, memory, load, joined by
  \<open> | \<close>; with the three flags disabled it is the placeholder
  \<open>$(gear) Configure Monitor\<close>, which is not the empty string.
\<close>

theorem updateStatusBar_text:
  "statusBarText (updateStatusBar (Fin 50) (Fin 30) [Fin 1, Fin (3 / 4), Fin (1 / 2)]
       (m\<lparr> displayOptions := \<lparr> showCpu = True, showMemory = True, showLoad = True \<rparr> \<rparr>))
     = ''CPU: 50% | MEM: 30% | Load: 1, 0.75, 0.5''
   \<and> statusBarText (updateStatusBar cpu memory load m)
     = (let segments =
              (if showCpu (displayOptions m)
               then [''CPU: '' @ numberToString cpu @ ''%''] else [])
              @ (if showMemory (displayOptions m)
                 then [''MEM: '' @ numberToString memory @ ''%''] else [])
              @ (if showLoad (displayOptions m)
                 then [''Load: '' @ join '', '' (map numberToString load)] else [])
        in if segments = [] then ''$(gear) Configure Monitor'' else join '' | '' segments)
   \<and> statusBarText (updateStatusBar cpu memory load
       (m\<lparr> displayOptions := \<lparr> showCpu = False, showMemory = False, showLoad = False \<rparr> \<rparr>))
     = ''$(gear) Configure Monitor''
   \<and> statusBarText (updateStatusBar cpu memory load
       (m\<lparr> displayOptions := \<lparr> showCpu = False, showMemory = False, showLoad = False \<rparr> \<rparr>))
     \<noteq> []"
proof -
  have "statusBarText (updateStatusBar (Fin 50) (Fin 30) [Fin 1, Fin (3 / 4), Fin (1 / 2)]
       (m\<lparr> displayOptions := \<lparr> showCpu = True, showMemory = True, showLoad = True \<rparr> \<rparr>))
     = ''CPU: 50% | MEM: 30% | Load: 1, 0.75, 0.5''"
    by (simp add: updateStatusBar_def print_eval rd_eval)
  moreover have "statusBarText (updateStatusBar cpu memory load m)
     = (let segments =
              (if showCpu (displayOptions m)
               then [''CPU: '' @ numberToString cpu @ ''%''] else [])
              @ (if showMemory (displayOptions m)
                 then [''MEM: '' @ numberToString memory @ ''%''] else [])
              @ (if showLoad (displayOptions m)
                 then [''Load: '' @ join '', '' (map numberToString load)] else [])
        in if segments = [] then ''$(gear) Configure Monitor'' else join '' | '' segments)"
    by (simp add: updateStatusBar_def)
  moreover have "statusBarText (updateStatusBar cpu memory load
       (m\<lparr> displayOptions := \<lparr> showCpu = False, showMemory = False, showLoad = False \<rparr> \<rparr>))
     = ''$(gear) Configure Monitor''"
    by (simp add: updateStatusBar_def)
  ultimately show ?thesis by simp
qed

subsection \<open>CPU usage\<close>

lemma startsWith_nonempty: "startsWith line (c # p) \<Longrightarrow> line \<noteq> []"
  by (auto simp: startsWith_def)

lemma aggregateLine_nonempty: "aggregateLine data = Some line \<Longrightarrow> line \<noteq> []"
  unfolding aggregateLine_def
  by (auto simp: find_Some_iff dest: startsWith_nonempty)

lemma parseCPUUsage_absent:
  "aggregateLine data = None \<Longrightarrow> parseCPUUsage data m = (Fin 0, m)"
  by (simp add: parseCPUUsage_def aggregateLine_def)

lemma parseCPUUsage_found:
  assumes "aggregateLine data = Some line"
  shows "parseCPUUsage data m =
     (let m' = m\<lparr> lastCpuIdle := sampleIdle line, lastCpuTotal := Num (sampleTotal line) \<rparr>;
          idleDiff = jssub (toNumber (sampleIdle line)) (toNumber (lastCpuIdle m));
          totalDiff = jssub (sampleTotal line) (toNumber (lastCpuTotal m))
      in if lastCpuIdle m = Null \<or> lastCpuTotal m = Null then (Fin 0, m')
         else if totalDiff = Fin 0 then (Fin 0, m')
         else (parseFloat (toFixed 2
                 (jsmul (jsdiv (jssub totalDiff idleDiff) totalDiff) (Fin 100))), m'))"
proof -
  have ne: "line \<noteq> []"
    using assms by (rule aggregateLine_nonempty)
  have f: "find (\<lambda>line. startsWith line ''cpu '') (split CHR 0x0A data) = Some line"
    using assms by (simp add: aggregateLine_def)
  show ?thesis
    by (simp add: parseCPUUsage_def f ne sampleIdle_def sampleTotal_def sampleParts_def Let_def)
qed

text \<open>
  The result of an addition or a subtraction, when finite, is a binary64 value. Binary64
  values are multiples of \<open>2 ^ - 1074\<close>, so the difference of two of them is 0 exactly
  when they are equal: a difference that is not 0 does not round to 0.
\<close>

lemma jsadd_double: "jsadd a b = Fin t \<Longrightarrow> roundDouble t = Fin t"
  by (cases a; cases b) (auto simp: signedInf_def dest: roundDouble_idem split: if_splits)

lemma jssub_double: "jssub a b = Fin t \<Longrightarrow> roundDouble t = Fin t"
  unfolding jssub_def by (rule jsadd_double)

lemma double_grid:
  assumes "roundDouble t = Fin t"
  shows "\<exists>K. t * 2 powi 1074 = of_int K"
proof -
  have pos: "\<exists>K. s * 2 powi 1074 = of_int K" if s: "0 < s" and r: "roundDouble s = Fin s" for s
  proof -
    obtain K where "s * 2 powi (52 - max (binaryExponent s) (- 1022)) = of_int K"
      using roundDouble_fixed_scaled(1) [OF s r] by blast
    then have "\<exists>K. s * 2 powi (52 - (- 1022)) = of_int K"
      by (rule scaled_int_mono) simp
    then show ?thesis
      by simp
  qed
  consider "t = 0" | "0 < t" | "t < 0"
    by linarith
  then show ?thesis
  proof cases
    case 1
    then show ?thesis
      by simp
  next
    case 2
    then show ?thesis
      using pos assms by blast
  next
    case 3
    have "roundDouble (- t) = Fin (- t)"
      using assms by (simp add: roundDouble_minus)
    then obtain K where "- t * 2 powi 1074 = of_int K"
      using pos [of "- t"] 3 by auto
    then have "t * 2 powi 1074 = of_int (- K)"
      by simp
    then show ?thesis
      by blast
  qed
qed

lemma roundDouble_grid_nonzero:
  assumes "d * 2 powi 1074 = of_int K" and "d \<noteq> 0"
  shows "roundDouble d \<noteq> Fin 0"
proof -
  have pos: "roundDouble s \<noteq> Fin 0" if s: "0 < s" and K: "s * 2 powi 1074 = of_int K" for s K
  proof -
    let ?e = "max (binaryExponent s) (- 1022)"
    have "(0 :: rat) < of_int K"
      using s two_powi_pos [of 1074] unfolding K [symmetric] by simp
    then have "1 \<le> K"
      by simp
    then have one: "1 \<le> s * 2 powi 1074"
      unfolding K by simp
    have "1 \<le> s * 2 powi (52 - ?e)"
    proof (cases "binaryExponent s \<le> - 1022")
      case True
      then have "52 - ?e = 1074"
        by simp
      then show ?thesis
        using one by simp
    next
      case False
      then have e: "?e = binaryExponent s"
        by simp
      have "2 powi ?e \<le> s"
        unfolding e using binaryExponent_bounds [OF s] by simp
      then have "2 powi ?e * 2 powi (52 - ?e) \<le> s * 2 powi (52 - ?e)"
        using two_powi_pos [of "52 - ?e"] by (metis less_imp_le mult_right_mono)
      moreover have "(2 :: rat) powi ?e * 2 powi (52 - ?e) = 2 ^ 52"
        by (simp only: two_powi_mult) simp
      ultimately show ?thesis
        by simp
    qed
    then have "of_int 1 \<le> s * 2 powi (52 - ?e)"
      by simp
    then have "1 \<le> roundHalfEven (s * 2 powi (52 - ?e))"
      by (rule roundHalfEven_ge)
    then have "(0 :: rat) < of_int (roundHalfEven (s * 2 powi (52 - ?e)))"
      by simp
    then have "0 < roundAt ?e s"
      unfolding roundAt_def using two_powi_pos [of "?e - 52"] by simp
    then show ?thesis
      by (simp add: roundDouble_pos [OF s] finiteOrInf_def signedInf_def)
  qed
  show ?thesis
  proof (cases "0 < d")
    case True
    then show ?thesis
      using pos assms by blast
  next
    case False
    then have "0 < - d"
      using assms(2) by simp
    moreover have "- d * 2 powi 1074 = of_int (- K)"
      using assms(1) by simp
    ultimately have "roundDouble (- d) \<noteq> Fin 0"
      by (rule pos)
    then show ?thesis
      by (cases "roundDouble d") (auto simp: roundDouble_minus)
  qed
qed

lemma jssub_zero_iff:
  assumes "roundDouble s = Fin s" and "roundDouble t = Fin t"
  shows "jssub (Fin s) (Fin t) = Fin 0 \<longleftrightarrow> s = t"
proof
  assume z: "jssub (Fin s) (Fin t) = Fin 0"
  obtain K L where "s * 2 powi 1074 = of_int K" and "t * 2 powi 1074 = of_int L"
    using assms double_grid by blast
  then have "(s - t) * 2 powi 1074 = of_int (K - L)"
    by (simp add: left_diff_distrib)
  then have "s - t \<noteq> 0 \<Longrightarrow> roundDouble (s - t) \<noteq> Fin 0"
    by (rule roundDouble_grid_nonzero)
  then show "s = t"
    using z by (auto simp: jssub_def)
next
  assume "s = t"
  then show "jssub (Fin s) (Fin t) = Fin 0"
    by (simp add: jssub_def roundDouble_zero)
qed

lemma jssub_zero_finite: "jssub a b = Fin 0 \<Longrightarrow> \<exists>s t. a = Fin s \<and> b = Fin t"
  by (cases a; cases b) (auto simp: jssub_def)

lemma foldl_jsadd_double:
  "roundDouble a = Fin a \<Longrightarrow> foldl jsadd (Fin a) xs = Fin t \<Longrightarrow> roundDouble t = Fin t"
proof (induction xs arbitrary: t rule: rev_induct)
  case Nil
  then show ?case
    by simp
next
  case (snoc x xs)
  then show ?case
    using jsadd_double by simp
qed

lemma sampleTotal_double: "sampleTotal line = Fin t \<Longrightarrow> roundDouble t = Fin t"
  unfolding sampleTotal_def using foldl_jsadd_double [of 0] by (simp add: roundDouble_zero)

text \<open>The totals of two lines differ by 0 exactly when they are the same finite number.\<close>

lemma sampleTotal_same:
  "jssub (sampleTotal l2) (sampleTotal l1) = Fin 0
     \<longleftrightarrow> (\<exists>t. sampleTotal l1 = Fin t \<and> sampleTotal l2 = Fin t)"
proof
  assume z: "jssub (sampleTotal l2) (sampleTotal l1) = Fin 0"
  then obtain s t where st: "sampleTotal l2 = Fin s" "sampleTotal l1 = Fin t"
    using jssub_zero_finite by blast
  then have "s = t"
    using z jssub_zero_iff [of s t] sampleTotal_double by simp
  then show "\<exists>t. sampleTotal l1 = Fin t \<and> sampleTotal l2 = Fin t"
    using st by simp
next
  assume "\<exists>t. sampleTotal l1 = Fin t \<and> sampleTotal l2 = Fin t"
  then show "jssub (sampleTotal l2) (sampleTotal l1) = Fin 0"
    by (auto simp: jssub_def roundDouble_zero)
qed

lemma parseCPUUsage_snd:
  "aggregateLine data = Some line \<Longrightarrow>
     snd (parseCPUUsage data m)
       = m\<lparr> lastCpuIdle := sampleIdle line, lastCpuTotal := Num (sampleTotal line) \<rparr>"
  by (simp add: parseCPUUsage_found Let_def)

text \<open>The two samples, evaluated.\<close>

lemma statSample1_line:
  "aggregateLine statSample1 = Some ''cpu  1000 200 300 4000 500 600 700 800''"
  by (simp add: aggregateLine_def statSample1_def split.simps startsWith_def)

lemma statSample2_line:
  "aggregateLine statSample2 = Some ''cpu  1500 300 400 4500 600 700 800 900''"
  by (simp add: aggregateLine_def statSample2_def split.simps startsWith_def)

lemma statSample1_parts:
  "sampleParts ''cpu  1000 200 300 4000 500 600 700 800''
     = [Fin 1000, Fin 200, Fin 300, Fin 4000, Fin 500, Fin 600, Fin 700, Fin 800]"
  by (simp add: sampleParts_def splitWhiteSpace.simps read_eval) (simp add: rd_eval)

lemma statSample2_parts:
  "sampleParts ''cpu  1500 300 400 4500 600 700 800 900''
     = [Fin 1500, Fin 300, Fin 400, Fin 4500, Fin 600, Fin 700, Fin 800, Fin 900]"
  by (simp add: sampleParts_def splitWhiteSpace.simps read_eval) (simp add: rd_eval)

lemma statSample1_counters:
  "sampleIdle ''cpu  1000 200 300 4000 500 600 700 800'' = Num (Fin 4000)"
  "sampleTotal ''cpu  1000 200 300 4000 500 600 700 800'' = Fin 8100"
  by (simp_all add: sampleIdle_def sampleTotal_def statSample1_parts index_def rd_eval)

lemma statSample2_counters:
  "sampleIdle ''cpu  1500 300 400 4500 600 700 800 900'' = Num (Fin 4500)"
  "sampleTotal ''cpu  1500 300 400 4500 600 700 800 900'' = Fin 9700"
  by (simp_all add: sampleIdle_def sampleTotal_def statSample2_parts index_def rd_eval)

lemma sampleIdle_not_Null: "sampleIdle line \<noteq> Null"
  by (simp add: sampleIdle_def index_def)

text \<open>
  C4. When the input has no line that starts with \<open>cpu \<close>, \<open>parseCPUUsage\<close> returns 0
  and leaves the monitor as it was. When it has one, the monitor after the call differs
  from the monitor before only in its two counters, which hold the idle field (the
  fourth) and the sum of the fields of that line, whichever branch the call took.
\<close>

theorem parseCPUUsage_counters:
  "(aggregateLine data = None \<longrightarrow> parseCPUUsage data m = (Fin 0, m))
   \<and> (\<forall>line. aggregateLine data = Some line \<longrightarrow>
         snd (parseCPUUsage data m)
           = m\<lparr> lastCpuIdle := sampleIdle line, lastCpuTotal := Num (sampleTotal line) \<rparr>)"
  by (simp add: parseCPUUsage_absent parseCPUUsage_snd)

theorem parseCPUUsage_counters_witness:
  "aggregateLine ''intr 123456789'' = None
   \<and> parseCPUUsage ''intr 123456789'' (newResourceMonitor (Fin 1))
       = (Fin 0, newResourceMonitor (Fin 1))
   \<and> aggregateLine statSample2 = Some ''cpu  1500 300 400 4500 600 700 800 900''
   \<and> snd (parseCPUUsage statSample2
            ((newResourceMonitor (Fin 1))
               \<lparr> lastCpuIdle := Num (Fin 4000), lastCpuTotal := Num (Fin 8100) \<rparr>))
       = (newResourceMonitor (Fin 1))
           \<lparr> lastCpuIdle := Num (Fin 4500), lastCpuTotal := Num (Fin 9700) \<rparr>"
proof -
  have none: "aggregateLine ''intr 123456789'' = None"
    by (simp add: aggregateLine_def split.simps startsWith_def)
  show ?thesis
    using parseCPUUsage_counters [of "''intr 123456789''" "newResourceMonitor (Fin 1)"]
      parseCPUUsage_counters [of statSample2
        "(newResourceMonitor (Fin 1))
           \<lparr> lastCpuIdle := Num (Fin 4000), lastCpuTotal := Num (Fin 8100) \<rparr>"]
    by (simp add: none statSample2_line statSample2_counters)
qed

text \<open>
  C3. When two successive calls of \<open>parseCPUUsage\<close> find aggregate lines whose fields
  have the same sum \<open>t\<close>, the difference of the totals is 0 and the second call returns
  exactly 0, whatever the counters were before the first call: the division is guarded.
  By \<open>sampleTotal_same\<close> these are all the cases in which the difference is 0.
\<close>

theorem parseCPUUsage_no_advance:
  assumes "aggregateLine d1 = Some l1" and "aggregateLine d2 = Some l2"
    and "sampleTotal l1 = Fin t" and "sampleTotal l2 = Fin t"
  shows "jssub (sampleTotal l2) (sampleTotal l1) = Fin 0
         \<and> fst (parseCPUUsage d2 (snd (parseCPUUsage d1 m))) = Fin 0"
proof -
  have d: "jssub (sampleTotal l2) (sampleTotal l1) = Fin 0"
    using assms(3,4) by (simp add: jssub_def roundDouble_zero)
  then show ?thesis
    by (simp add: parseCPUUsage_snd [OF assms(1)] parseCPUUsage_found [OF assms(2)] Let_def)
qed

theorem parseCPUUsage_no_advance_witness:
  "aggregateLine statSample1 = Some ''cpu  1000 200 300 4000 500 600 700 800''
   \<and> sampleTotal ''cpu  1000 200 300 4000 500 600 700 800'' = Fin 8100
   \<and> fst (parseCPUUsage statSample1
            (snd (parseCPUUsage statSample1 (newResourceMonitor (Fin 1))))) = Fin 0"
  using parseCPUUsage_no_advance [OF statSample1_line statSample1_line
      statSample1_counters(2) statSample1_counters(2), of "newResourceMonitor (Fin 1)"]
  by (simp add: statSample1_line statSample1_counters)

lemma statSample3_line: "aggregateLine statSample3 = Some ''cpu  0 0 0 0''"
  by (simp add: aggregateLine_def statSample3_def split.simps startsWith_def)

lemma statSample4_line: "aggregateLine statSample4 = Some ''cpu  23 0 0 137''"
  by (simp add: aggregateLine_def statSample4_def split.simps startsWith_def)

lemma statSample5_line: "aggregateLine statSample5 = Some ''cpu  489 0 0 311''"
  by (simp add: aggregateLine_def statSample5_def split.simps startsWith_def)

lemma statSample5_parts: "sampleParts ''cpu  489 0 0 311'' = [Fin 489, Fin 0, Fin 0, Fin 311]"
  by (simp add: sampleParts_def splitWhiteSpace.simps read_eval) (simp add: rd_eval)

lemma statSample5_counters:
  "sampleIdle ''cpu  489 0 0 311'' = Num (Fin 311)"
  "sampleTotal ''cpu  489 0 0 311'' = Fin 800"
  by (simp_all add: sampleIdle_def sampleTotal_def statSample5_parts index_def rd_eval)

lemma statSample3_parts: "sampleParts ''cpu  0 0 0 0'' = [Fin 0, Fin 0, Fin 0, Fin 0]"
  by (simp add: sampleParts_def splitWhiteSpace.simps read_eval) (simp add: rd_eval)

lemma statSample4_parts: "sampleParts ''cpu  23 0 0 137'' = [Fin 23, Fin 0, Fin 0, Fin 137]"
  by (simp add: sampleParts_def splitWhiteSpace.simps read_eval) (simp add: rd_eval)

lemma statSample3_counters:
  "sampleIdle ''cpu  0 0 0 0'' = Num (Fin 0)"
  "sampleTotal ''cpu  0 0 0 0'' = Fin 0"
  by (simp_all add: sampleIdle_def sampleTotal_def statSample3_parts index_def rd_eval)

lemma statSample4_counters:
  "sampleIdle ''cpu  23 0 0 137'' = Num (Fin 137)"
  "sampleTotal ''cpu  23 0 0 137'' = Fin 160"
  by (simp_all add: sampleIdle_def sampleTotal_def statSample4_parts index_def rd_eval)

text \<open>The binary64 operations on the numbers of the samples.\<close>

lemma sample_arith:
  "roundDouble (1600 - 500) = Fin 1100"
  "roundDouble (1100 / 1600) = Fin (11 / 16)"
  "roundDouble (11 / 16 * 100) = Fin (275 / 4)"
  "roundDouble (275 / 4) = Fin (275 / 4)"
  "roundDouble (160 - 137) = Fin 23"
  "roundDouble (23 / 160) = Fin (2589569785738035 / 18014398509481984)"
  "roundDouble (2589569785738035 / 18014398509481984 * 100)
     = Fin (8092405580431359 / 562949953421312)"
  "roundDouble (1437 / 100) = Fin (8089590830664253 / 562949953421312)"
  "roundDouble (1438 / 100) = Fin (8095220330198467 / 562949953421312)"
  by (simp_all add: rd_eval)

text \<open>
  C1. On a monitor with no stored counters, the first call of \<open>parseCPUUsage\<close> on an
  input with an aggregate line returns 0 and stores the idle field and the total of that
  line. The second call returns 0 when the total has not moved and otherwise
  \<open>((totalDiff - idleDiff) / totalDiff) * 100\<close>, taken against the stored sample and
  passed through \<open>toFixed(2)\<close> and \<open>parseFloat\<close>. The subtraction, the division and
  the multiplication each round to binary64; for a finite usage \<open>u\<close> below \<open>10 ^ 21\<close>
  in magnitude the result is the binary64 value of \<open>u\<close> rounded to two decimals. With
  the fields 1000, 200, 300, 4000, 500, 600, 700, 800 and then 1500, 300, 400, 4500,
  600, 700, 800, 900 the first call returns 0 and the second 68.75. With the fields
  0, 0, 0, 0 and then 23, 0, 0, 137 the second call returns 14.37, where the exact
  quotient 14.375 would round to 14.38; with 0, 0, 0, 0 and then 489, 0, 0, 311 it
  returns 61.12.
\<close>

theorem parseCPUUsage_first_second:
  assumes "lastCpuIdle m = Null" and "lastCpuTotal m = Null"
    and "aggregateLine d1 = Some l1" and "aggregateLine d2 = Some l2"
  shows "parseCPUUsage d1 m
           = (Fin 0, m\<lparr> lastCpuIdle := sampleIdle l1, lastCpuTotal := Num (sampleTotal l1) \<rparr>)
   \<and> fst (parseCPUUsage d2 (snd (parseCPUUsage d1 m)))
       = (let idleDiff = jssub (toNumber (sampleIdle l2)) (toNumber (sampleIdle l1));
              totalDiff = jssub (sampleTotal l2) (sampleTotal l1)
          in if totalDiff = Fin 0 then Fin 0
             else parseFloat (toFixed 2
                    (jsmul (jsdiv (jssub totalDiff idleDiff) totalDiff) (Fin 100))))
   \<and> (\<forall>i t x y u. jssub (toNumber (sampleIdle l2)) (toNumber (sampleIdle l1)) = Fin i
            \<and> jssub (sampleTotal l2) (sampleTotal l1) = Fin t \<and> t \<noteq> 0
            \<and> roundDouble (t - i) = Fin x \<and> roundDouble (x / t) = Fin y
            \<and> roundDouble (y * 100) = Fin u \<and> \<bar>u\<bar> < 10 ^ 21
         \<longrightarrow> fst (parseCPUUsage d2 (snd (parseCPUUsage d1 m)))
               = roundDouble (roundTo2 u))
   \<and> fst (parseCPUUsage statSample1 (newResourceMonitor seconds)) = Fin 0
   \<and> fst (parseCPUUsage statSample2
             (snd (parseCPUUsage statSample1 (newResourceMonitor seconds))))
       = Fin (6875 / 100)
   \<and> fst (parseCPUUsage statSample4
             (snd (parseCPUUsage statSample3 (newResourceMonitor seconds))))
       = roundDouble (1437 / 100)
   \<and> roundTo2 ((160 - 137) / 160 * 100) = 1438 / 100
   \<and> roundDouble (1437 / 100) \<noteq> roundDouble (1438 / 100)
   \<and> fst (parseCPUUsage statSample5
             (snd (parseCPUUsage statSample3 (newResourceMonitor seconds))))
       = roundDouble (6112 / 100)"
proof -
  have first: "parseCPUUsage d1 m
      = (Fin 0, m\<lparr> lastCpuIdle := sampleIdle l1, lastCpuTotal := Num (sampleTotal l1) \<rparr>)"
    using assms(1,2) by (simp add: parseCPUUsage_found [OF assms(3)] Let_def)
  have second: "fst (parseCPUUsage d2 (snd (parseCPUUsage d1 m)))
       = (let idleDiff = jssub (toNumber (sampleIdle l2)) (toNumber (sampleIdle l1));
              totalDiff = jssub (sampleTotal l2) (sampleTotal l1)
          in if totalDiff = Fin 0 then Fin 0
             else parseFloat (toFixed 2
                    (jsmul (jsdiv (jssub totalDiff idleDiff) totalDiff) (Fin 100))))"
    by (simp add: first parseCPUUsage_found [OF assms(4)] Let_def sampleIdle_not_Null)
  have rounded: "fst (parseCPUUsage d2 (snd (parseCPUUsage d1 m)))
               = roundDouble (roundTo2 u)"
    if "jssub (toNumber (sampleIdle l2)) (toNumber (sampleIdle l1)) = Fin i"
      and "jssub (sampleTotal l2) (sampleTotal l1) = Fin t"
      and "t \<noteq> 0" and "roundDouble (t - i) = Fin x" and "roundDouble (x / t) = Fin y"
      and "roundDouble (y * 100) = Fin u" and "\<bar>u\<bar> < 10 ^ 21" for i t x y u
    using that by (simp add: second jssub_def parseFloat_toFixed2)
  have fresh: "lastCpuIdle (newResourceMonitor seconds) = Null"
    "lastCpuTotal (newResourceMonitor seconds) = Null"
    by (simp_all add: newResourceMonitor_def)
  have ex1: "parseCPUUsage statSample1 (newResourceMonitor seconds)
      = (Fin 0, (newResourceMonitor seconds)
           \<lparr> lastCpuIdle := Num (Fin 4000), lastCpuTotal := Num (Fin 8100) \<rparr>)"
    by (simp add: parseCPUUsage_found [OF statSample1_line] fresh statSample1_counters)
  have "parseFloat (toFixed 2 (Fin (275 / 4))) = roundDouble (roundTo2 (275 / 4))"
    by (rule parseFloat_toFixed2) simp
  then have r: "parseFloat (toFixed 2 (Fin (275 / 4))) = Fin (275 / 4)"
    by (simp add: roundTo2_def sample_arith)
  have ex2: "fst (parseCPUUsage statSample2
             (snd (parseCPUUsage statSample1 (newResourceMonitor seconds))))
       = Fin (6875 / 100)"
    by (simp add: ex1 parseCPUUsage_found [OF statSample2_line] statSample2_counters
        jssub_def rd_eval r)
  have ex3: "parseCPUUsage statSample3 (newResourceMonitor seconds)
      = (Fin 0, (newResourceMonitor seconds)
           \<lparr> lastCpuIdle := Num (Fin 0), lastCpuTotal := Num (Fin 0) \<rparr>)"
    by (simp add: parseCPUUsage_found [OF statSample3_line] fresh statSample3_counters)
  have "parseFloat (toFixed 2 (Fin (8092405580431359 / 562949953421312)))
      = roundDouble (roundTo2 (8092405580431359 / 562949953421312))"
    by (rule parseFloat_toFixed2) simp
  then have r': "parseFloat (toFixed 2 (Fin (8092405580431359 / 562949953421312)))
      = roundDouble (1437 / 100)"
    by (simp add: roundTo2_def)
  have ex4: "fst (parseCPUUsage statSample4
             (snd (parseCPUUsage statSample3 (newResourceMonitor seconds))))
       = roundDouble (1437 / 100)"
    by (simp add: ex3 parseCPUUsage_found [OF statSample4_line] statSample4_counters
        jssub_def rd_eval r')
  have "parseFloat (toFixed 2 (Fin (8602578975719423 / 140737488355328)))
      = roundDouble (roundTo2 (8602578975719423 / 140737488355328))"
    by (rule parseFloat_toFixed2) simp
  then have r'': "parseFloat (toFixed 2 (Fin (8602578975719423 / 140737488355328)))
      = roundDouble (6112 / 100)"
    by (simp add: roundTo2_def)
  have ex5: "fst (parseCPUUsage statSample5
             (snd (parseCPUUsage statSample3 (newResourceMonitor seconds))))
       = roundDouble (6112 / 100)"
    by (simp add: ex3 parseCPUUsage_found [OF statSample5_line] statSample5_counters
        jssub_def rd_eval r'')
  have exact: "roundTo2 ((160 - 137) / 160 * 100) = 1438 / 100"
    by (simp add: roundTo2_def)
  have differ: "roundDouble (1437 / 100) \<noteq> roundDouble (1438 / 100)"
    unfolding sample_arith by simp
  show ?thesis
    using first second rounded ex1 ex2 ex4 ex5 exact differ by simp
qed

theorem parseCPUUsage_first_second_witness:
  "lastCpuIdle (newResourceMonitor (Fin 1)) = Null
   \<and> lastCpuTotal (newResourceMonitor (Fin 1)) = Null
   \<and> aggregateLine statSample3 = Some ''cpu  0 0 0 0''
   \<and> aggregateLine statSample4 = Some ''cpu  23 0 0 137''
   \<and> parseCPUUsage statSample3 (newResourceMonitor (Fin 1))
       = (Fin 0, (newResourceMonitor (Fin 1))
            \<lparr> lastCpuIdle := Num (Fin 0), lastCpuTotal := Num (Fin 0) \<rparr>)
   \<and> jssub (toNumber (sampleIdle ''cpu  23 0 0 137'')) (toNumber (sampleIdle ''cpu  0 0 0 0''))
       = Fin 137
   \<and> jssub (sampleTotal ''cpu  23 0 0 137'') (sampleTotal ''cpu  0 0 0 0'') = Fin 160
   \<and> roundDouble (160 - 137) = Fin 23
   \<and> roundDouble (23 / 160) = Fin (2589569785738035 / 18014398509481984)
   \<and> roundDouble (2589569785738035 / 18014398509481984 * 100)
       = Fin (8092405580431359 / 562949953421312)
   \<and> roundTo2 (8092405580431359 / 562949953421312) = 1437 / 100
   \<and> fst (parseCPUUsage statSample4
             (snd (parseCPUUsage statSample3 (newResourceMonitor (Fin 1)))))
       = roundDouble (1437 / 100)"
proof -
  have fresh: "lastCpuIdle (newResourceMonitor (Fin 1)) = Null"
    "lastCpuTotal (newResourceMonitor (Fin 1)) = Null"
    by (simp_all add: newResourceMonitor_def)
  note w = parseCPUUsage_first_second [OF fresh statSample3_line statSample4_line, of "Fin 1"]
  have a: "parseCPUUsage statSample3 (newResourceMonitor (Fin 1))
       = (Fin 0, (newResourceMonitor (Fin 1))
            \<lparr> lastCpuIdle := Num (Fin 0), lastCpuTotal := Num (Fin 0) \<rparr>)"
    using w [THEN conjunct1] by (simp add: statSample3_counters)
  have i: "jssub (toNumber (sampleIdle ''cpu  23 0 0 137''))
             (toNumber (sampleIdle ''cpu  0 0 0 0'')) = Fin 137"
    and t: "jssub (sampleTotal ''cpu  23 0 0 137'') (sampleTotal ''cpu  0 0 0 0'') = Fin 160"
    by (simp_all add: statSample3_counters statSample4_counters jssub_def rd_eval)
  have r: "roundTo2 (8092405580431359 / 562949953421312) = 1437 / 100"
    by (simp add: roundTo2_def)
  have "fst (parseCPUUsage statSample4
             (snd (parseCPUUsage statSample3 (newResourceMonitor (Fin 1)))))
       = roundDouble (roundTo2 (8092405580431359 / 562949953421312))"
    using w [THEN conjunct2, THEN conjunct2, THEN conjunct1, rule_format,
        of 137 160 23 "2589569785738035 / 18014398509481984"
          "8092405580431359 / 562949953421312"]
      i t sample_arith(5-7)
    by simp
  then have b: "fst (parseCPUUsage statSample4
             (snd (parseCPUUsage statSample3 (newResourceMonitor (Fin 1)))))
       = roundDouble (1437 / 100)"
    by (simp only: r)
  show ?thesis
    using a b i t r fresh statSample3_line statSample4_line sample_arith(5-7) by blast
qed

lemma roundDouble_hundred: "roundDouble 1 = Fin 1" "roundDouble 100 = Fin 100"
  by (simp_all add: rd_eval)

lemma roundTo2_percentage:
  assumes "0 \<le> u" and "u \<le> 100"
  shows "isPercentage (roundDouble (roundTo2 u)) \<and> hasTwoDecimals (roundDouble (roundTo2 u))"
proof -
  define k where "k = \<lfloor>u * 100 + 1 / 2\<rfloor>"
  define w where "w = rat_of_int k / 100"
  have r: "roundTo2 u = w"
    using assms(1) by (simp add: roundTo2_def k_def w_def)
  have "0 \<le> u * 100 + 1 / 2"
    using assms(1) by simp
  then have k0: "0 \<le> k"
    unfolding k_def by simp
  have "u * 100 + 1 / 2 < 10001"
    using assms(2) by simp
  then have "k < 10001"
    unfolding k_def by (simp add: floor_less_iff)
  then have k1: "k \<le> 10000"
    by simp
  have w0: "0 \<le> w"
    unfolding w_def using k0 by simp
  have "(of_int k :: rat) \<le> 10000"
    using k1 by (metis of_int_le_iff of_int_numeral)
  then have w1: "w \<le> 100"
    unfolding w_def by simp
  obtain y where y: "roundDouble w = Fin y" "0 \<le> y" "y \<le> 100"
    using roundDouble_between [OF w0 w1 roundDouble_hundred(2)] by blast
  have "roundTo2 y = w"
  proof (cases "w = 0")
    case True
    then have "y = 0"
      using y(1) by (simp add: roundDouble_zero)
    then show ?thesis
      using True by (simp add: roundTo2_def)
  next
    case False
    then have "0 < w" and "w < 128"
      using w0 w1 by simp_all
    then have "\<bar>y - w\<bar> \<le> 2 powi (- 47)"
      using y(1) by (rule roundDouble_close)
    moreover have "(2 :: rat) powi (- 47) < 1 / 200"
      by (simp add: power_int_minus_divide)
    ultimately have c: "\<bar>y - w\<bar> < 1 / 200"
      by linarith
    have "w * 100 = of_int k"
      unfolding w_def by simp
    then have "of_int k \<le> y * 100 + 1 / 2" and "y * 100 + 1 / 2 < of_int k + 1"
      using c by (simp_all add: abs_if split: if_splits)
    then have "\<lfloor>y * 100 + 1 / 2\<rfloor> = k"
      by (intro floor_unique) simp_all
    then show ?thesis
      using y(2) by (simp add: roundTo2_def w_def)
  qed
  then have "hasTwoDecimals (Fin y)"
    using y(1) by simp
  then show ?thesis
    using y by (simp add: r)
qed

text \<open>
  C5, as the code has it. \<open>parseCPUUsage\<close> does not clamp its result. The value it
  returns is a number from 0 to 100 with at most two decimals whenever the call takes
  no difference (no aggregate line, or no stored counters) or the differences it takes
  are finite with \<open>0 \<le> idleDiff \<le> totalDiff\<close>.
\<close>

theorem parseCPUUsage_percentage:
  assumes "\<forall>line. aggregateLine data = Some line \<longrightarrow>
             lastCpuIdle m \<noteq> Null \<longrightarrow> lastCpuTotal m \<noteq> Null \<longrightarrow>
             (\<exists>i t. jssub (toNumber (sampleIdle line)) (toNumber (lastCpuIdle m)) = Fin i
                  \<and> jssub (sampleTotal line) (toNumber (lastCpuTotal m)) = Fin t
                  \<and> 0 \<le> i \<and> i \<le> t)"
  shows "isPercentage (fst (parseCPUUsage data m))
         \<and> hasTwoDecimals (fst (parseCPUUsage data m))"
proof (cases "aggregateLine data")
  case None
  then show ?thesis
    by (simp add: parseCPUUsage_absent roundTo2_def roundDouble_zero)
next
  case (Some line)
  show ?thesis
  proof (cases "lastCpuIdle m = Null \<or> lastCpuTotal m = Null")
    case True
    then show ?thesis
      by (auto simp: parseCPUUsage_found [OF Some] Let_def roundTo2_def roundDouble_zero)
  next
    case False
    then obtain i t where
      i: "jssub (toNumber (sampleIdle line)) (toNumber (lastCpuIdle m)) = Fin i"
      and t: "jssub (sampleTotal line) (toNumber (lastCpuTotal m)) = Fin t"
      and le: "0 \<le> i" "i \<le> t"
      using assms Some by blast
    show ?thesis
    proof (cases "t = 0")
      case True
      then show ?thesis
        using False
        by (simp add: parseCPUUsage_found [OF Some] Let_def i t roundTo2_def roundDouble_zero)
    next
      case nz: False
      have pos: "0 < t"
        using le nz by simp
      have dt: "roundDouble t = Fin t"
        using t by (rule jssub_double)
      have "0 \<le> t - i" and "t - i \<le> t"
        using le by simp_all
      then obtain x where x: "roundDouble (t - i) = Fin x" "0 \<le> x" "x \<le> t"
        using roundDouble_between [OF _ _ dt] by blast
      have "0 \<le> x / t" and "x / t \<le> 1"
        using x pos by simp_all
      then obtain y where y: "roundDouble (x / t) = Fin y" "0 \<le> y" "y \<le> 1"
        using roundDouble_between [OF _ _ roundDouble_hundred(1)] by blast
      have "0 \<le> y * 100" and "y * 100 \<le> 100"
        using y by simp_all
      then obtain u where u: "roundDouble (y * 100) = Fin u" "0 \<le> u" "u \<le> 100"
        using roundDouble_between [OF _ _ roundDouble_hundred(2)] by blast
      have "\<bar>u\<bar> < 10 ^ 21"
        using u by simp
      then have "parseFloat (toFixed 2 (Fin u)) = roundDouble (roundTo2 u)"
        by (rule parseFloat_toFixed2)
      moreover have "jsmul (jsdiv (jssub (Fin t) (Fin i)) (Fin t)) (Fin 100) = Fin u"
        using nz by (simp add: jssub_def x y u)
      ultimately have "fst (parseCPUUsage data m) = roundDouble (roundTo2 u)"
        using False nz
        by (simp add: parseCPUUsage_found [OF Some] Let_def i t)
      then show ?thesis
        using roundTo2_percentage [OF u(2,3)] by simp
    qed
  qed
qed

theorem parseCPUUsage_percentage_witness:
  "jssub (toNumber (sampleIdle ''cpu  1500 300 400 4500 600 700 800 900''))
         (toNumber (Num (Fin 4000))) = Fin 500
   \<and> jssub (sampleTotal ''cpu  1500 300 400 4500 600 700 800 900'')
         (toNumber (Num (Fin 8100))) = Fin 1600
   \<and> isPercentage (fst (parseCPUUsage statSample2
        ((newResourceMonitor (Fin 1))
           \<lparr> lastCpuIdle := Num (Fin 4000), lastCpuTotal := Num (Fin 8100) \<rparr>)))
   \<and> hasTwoDecimals (fst (parseCPUUsage statSample2
        ((newResourceMonitor (Fin 1))
           \<lparr> lastCpuIdle := Num (Fin 4000), lastCpuTotal := Num (Fin 8100) \<rparr>)))"
  using parseCPUUsage_percentage [of statSample2
      "(newResourceMonitor (Fin 1))
         \<lparr> lastCpuIdle := Num (Fin 4000), lastCpuTotal := Num (Fin 8100) \<rparr>"]
  by (simp add: statSample2_line statSample2_counters jssub_def rd_eval)

lemma idleFalls_lines:
  "aggregateLine ''cpu  100 0 0 100'' = Some ''cpu  100 0 0 100''"
  "aggregateLine ''cpu  250 0 0 50'' = Some ''cpu  250 0 0 50''"
  by (simp_all add: aggregateLine_def split.simps startsWith_def)

lemma idleFalls_counters:
  "sampleIdle ''cpu  100 0 0 100'' = Num (Fin 100)"
  "sampleTotal ''cpu  100 0 0 100'' = Fin 200"
  "sampleIdle ''cpu  250 0 0 50'' = Num (Fin 50)"
  "sampleTotal ''cpu  250 0 0 50'' = Fin 300"
  by (simp_all add: sampleIdle_def sampleTotal_def sampleParts_def splitWhiteSpace.simps
      index_def read_eval) (simp_all add: rd_eval)

text \<open>
  C5 as stated fails: when the idle counter falls from 100 to 50 while the total rises
  from 200 to 300, the second call returns 150.
\<close>

theorem parseCPUUsage_percentage_counterexample:
  "fst (parseCPUUsage ''cpu  250 0 0 50''
          (snd (parseCPUUsage ''cpu  100 0 0 100'' (newResourceMonitor (Fin 1))))) = Fin 150
   \<and> \<not> isPercentage (fst (parseCPUUsage ''cpu  250 0 0 50''
          (snd (parseCPUUsage ''cpu  100 0 0 100'' (newResourceMonitor (Fin 1))))))"
proof -
  have "parseFloat (toFixed 2 (Fin 150)) = roundDouble (roundTo2 150)"
    by (rule parseFloat_toFixed2) simp
  then have r: "parseFloat (toFixed 2 (Fin 150)) = Fin 150"
    by (simp add: roundTo2_def rd_eval)
  have "fst (parseCPUUsage ''cpu  250 0 0 50''
          (snd (parseCPUUsage ''cpu  100 0 0 100'' (newResourceMonitor (Fin 1))))) = Fin 150"
    by (simp add: parseCPUUsage_snd [OF idleFalls_lines(1)]
        parseCPUUsage_found [OF idleFalls_lines(2)] idleFalls_counters jssub_def rd_eval r)
  then show ?thesis by simp
qed

subsection \<open>Memory usage\<close>

lemma takeWhile_stop: "ys = [] \<or> \<not> P (hd ys) \<Longrightarrow> takeWhile P ys = []"
  by (cases ys) auto

lemma dropWhile_stop: "ys = [] \<or> \<not> P (hd ys) \<Longrightarrow> dropWhile P ys = ys"
  by (cases ys) auto

lemma takeWhile_run:
  "list_all P xs \<Longrightarrow> ys = [] \<or> \<not> P (hd ys) \<Longrightarrow> takeWhile P (xs @ ys) = xs"
  by (induction xs) (simp_all add: takeWhile_stop)

lemma dropWhile_run:
  "list_all P xs \<Longrightarrow> ys = [] \<or> \<not> P (hd ys) \<Longrightarrow> dropWhile P (xs @ ys) = ys"
  by (induction xs) (simp_all add: dropWhile_stop)

lemma digits_hd: "isDigit (hd (digits n))"
  using digits_all [of n] digits_nonempty [of n] by (cases "digits n") simp_all

lemma matchFirst_skip: "CHR '':'' \<notin> set label \<Longrightarrow> matchFirst (label @ s) = matchFirst s"
  by (induction label) (auto simp: matchHere_def)

lemma matchHere_value:
  assumes "ws \<noteq> []" and "list_all isWhiteSpace ws" and "r = [] \<or> \<not> isDigit (hd r)"
  shows "matchHere (CHR '':'' # ws @ digits n @ r) = Some (digits n)"
proof -
  have nd: "digits n @ r = [] \<or> \<not> isWhiteSpace (hd (digits n @ r))"
    using digits_hd [of n] digits_nonempty [of n] isDigit_not_special by simp
  have "takeWhile isWhiteSpace (ws @ digits n @ r) = ws"
    using assms(2) nd by (rule takeWhile_run)
  moreover have "dropWhile isWhiteSpace (ws @ digits n @ r) = digits n @ r"
    using assms(2) nd by (rule dropWhile_run)
  moreover have "takeWhile isDigit (digits n @ r) = digits n"
    using digits_all assms(3) by (rule takeWhile_run)
  ultimately show ?thesis
    using assms(1) digits_nonempty [of n] by (simp add: matchHere_def)
qed

lemma extractValue_line:
  assumes "CHR '':'' \<notin> set label"
    and "ws \<noteq> []" and "list_all isWhiteSpace ws" and "r = [] \<or> \<not> isDigit (hd r)"
  shows "extractValue (label @ CHR '':'' # ws @ digits n @ r) = digits n"
proof -
  have "matchFirst (CHR '':'' # ws @ digits n @ r) = Some (digits n)"
    using matchHere_value [OF assms(2-4), of n] by simp
  then show ?thesis
    using assms(1) by (simp add: extractValue_def matchFirst_skip)
qed

lemma radixDigit_decimal: "isDigit c \<Longrightarrow> radixDigit 10 c = Some (digitVal c)"
  by (auto simp: radixDigit_def hexDigitVal_def isDigit_def digitVal_def Let_def)

lemma parseRadix_decimal: "list_all isDigit ds \<Longrightarrow> parseRadix 10 ds = parseDigits ds"
proof (induction ds rule: rev_induct)
  case Nil
  then show ?case by (simp add: parseRadix_def parseDigits_def)
next
  case (snoc d ds)
  then have "parseRadix 10 ds = parseDigits ds" and "isDigit d"
    by simp_all
  then show ?case
    by (simp add: parseRadix_def parseDigits_def radixDigit_decimal)
qed

lemma parseInt_digits: "parseInt (digits n) = roundDouble (of_nat n)"
proof -
  obtain c cs where c: "digits n = c # cs" "isDigit c" "list_all isDigit cs"
    using digits_all [of n] digits_nonempty [of n] by (cases "digits n") auto
  have ws: "dropWhile isWhiteSpace (digits n) = digits n"
    using c isDigit_not_special [of c] by simp
  have sign: "readSign (digits n) = (False, digits n)"
    using c isDigit_not_special [of c] by simp
  have "cs = [] \<or> hd cs \<noteq> CHR ''x'' \<and> hd cs \<noteq> CHR ''X''"
    using c(3) by (cases cs) (auto simp: isDigit_def)
  then have hex: "\<not> startsWith (digits n) ''0x''" "\<not> startsWith (digits n) ''0X''"
    using c(1) by (cases cs; auto simp: startsWith_def)+
  have tw: "takeWhile (\<lambda>c. \<exists>d. radixDigit 10 c = Some d) (digits n) = digits n"
    using digits_all [of n]
    by (intro takeWhile_all) (simp add: list_all_iff radixDigit_decimal)
  show ?thesis
    using digits_nonempty [of n] digits_all [of n]
    by (simp add: parseInt_def ws sign hex tw parseRadix_decimal parseDigits_digits)
qed

lemma parseInt_defaults:
  "parseInt (extractValue ''MemTotal: 0 kB'') = Fin 0"
  "parseInt (extractValue ''MemAvailable: 0 kB'') = Fin 0"
  by (simp_all add: extractValue_def matchHere_def read_eval roundDouble_zero)

lemma memoryLine_orElse: "memoryLine (c # label) data = Some line \<Longrightarrow> orElse (Some line) d = line"
  unfolding memoryLine_def
  by (auto simp: find_Some_iff orElse_def dest: startsWith_nonempty)

lemma parseMemoryUsage_lines:
  "parseMemoryUsage data =
     (let memTotal = parseInt (extractValue
            (orElse (memoryLine ''MemTotal:'' data) ''MemTotal: 0 kB''));
          memAvailable = parseInt (extractValue
            (orElse (memoryLine ''MemAvailable:'' data) ''MemAvailable: 0 kB''))
      in parseFloat (toFixed 2
           (jsmul (jsdiv (jssub memTotal memAvailable) memTotal) (Fin 100))))"
  by (simp add: parseMemoryUsage_def memoryLine_def Let_def)

lemma parseMemoryUsage_present:
  assumes total: "memoryLine ''MemTotal:'' data = Some (''MemTotal:'' @ ws1 @ digits t @ r1)"
      "ws1 \<noteq> []" "list_all isWhiteSpace ws1" "r1 = [] \<or> \<not> isDigit (hd r1)"
    and avail: "memoryLine ''MemAvailable:'' data
        = Some (''MemAvailable:'' @ ws2 @ digits a @ r2)"
      "ws2 \<noteq> []" "list_all isWhiteSpace ws2" "r2 = [] \<or> \<not> isDigit (hd r2)"
    and read: "roundDouble (rat_of_nat t) = Fin T" "roundDouble (rat_of_nat a) = Fin A"
    and arith: "T \<noteq> 0" "roundDouble (T - A) = Fin x" "roundDouble (x / T) = Fin y"
      "roundDouble (y * 100) = Fin u"
    and range: "\<bar>u\<bar> < 10 ^ 21"
  shows "parseMemoryUsage data = roundDouble (roundTo2 u)"
proof -
  have mt: "parseInt (extractValue (orElse (memoryLine ''MemTotal:'' data) ''MemTotal: 0 kB''))
      = Fin T"
    unfolding total(1) memoryLine_orElse [OF total(1)]
    using extractValue_line [OF _ total(2-4), of "''MemTotal''" t]
    by (simp add: parseInt_digits read)
  have ma: "parseInt (extractValue
        (orElse (memoryLine ''MemAvailable:'' data) ''MemAvailable: 0 kB''))
      = Fin A"
    unfolding avail(1) memoryLine_orElse [OF avail(1)]
    using extractValue_line [OF _ avail(2-4), of "''MemAvailable''" a]
    by (simp add: parseInt_digits read)
  have "parseFloat (toFixed 2 (Fin u)) = roundDouble (roundTo2 u)"
    using range by (rule parseFloat_toFixed2)
  moreover have "jsmul (jsdiv (jssub (Fin T) (Fin A)) (Fin T)) (Fin 100) = Fin u"
    using arith by (simp add: jssub_def)
  ultimately show ?thesis
    by (simp add: parseMemoryUsage_lines mt ma)
qed

lemma parseMemoryUsage_absent:
  assumes "memoryLine ''MemTotal:'' data = None" and "memoryLine ''MemAvailable:'' data = None"
  shows "parseMemoryUsage data = NaN"
  by (simp add: parseMemoryUsage_lines assms orElse_def parseInt_defaults jssub_def
      roundDouble_zero toFixed_def parseFloat_def readDecimalLiteral_def startsWith_def
      isWhiteSpace_def isDigit_def)

lemma memSample_lines:
  "memoryLine ''MemTotal:'' memSample
     = Some (''MemTotal:'' @ ''       '' @ digits 16384000 @ '' kB'')"
  "memoryLine ''MemAvailable:'' memSample
     = Some (''MemAvailable:'' @ ''    '' @ digits 6553600 @ '' kB'')"
  by (simp_all add: memoryLine_def memSample_def split.simps startsWith_def digits.simps
      digitChar_def)

lemma memSample2_lines:
  "memoryLine ''MemTotal:'' memSample2 = Some (''MemTotal:'' @ '' '' @ digits 160 @ '' kB'')"
  "memoryLine ''MemAvailable:'' memSample2
     = Some (''MemAvailable:'' @ '' '' @ digits 137 @ '' kB'')"
  by (simp_all add: memoryLine_def memSample2_def split.simps startsWith_def digits.simps
      digitChar_def)

lemma memSample3_lines:
  "memoryLine ''MemTotal:'' memSample3
     = Some (''MemTotal:'' @ ''       '' @ digits 16384000 @ '' kB'')"
  "memoryLine ''MemAvailable:'' memSample3
     = Some (''MemAvailable:'' @ ''   '' @ digits 13037568 @ '' kB'')"
  by (simp_all add: memoryLine_def memSample3_def split.simps startsWith_def digits.simps
      digitChar_def)

lemma invalid_lines:
  "memoryLine ''MemTotal:'' ''invalid data'' = None"
  "memoryLine ''MemAvailable:'' ''invalid data'' = None"
  by (simp_all add: memoryLine_def split.simps startsWith_def)

text \<open>The binary64 operations on the numbers of \<open>memSample\<close>.\<close>

lemma memSample_arith:
  "roundDouble (rat_of_nat 16384000) = Fin 16384000"
  "roundDouble (rat_of_nat 6553600) = Fin 6553600"
  "roundDouble (16384000 - 6553600) = Fin 9830400"
  "roundDouble (9830400 / 16384000) = Fin (5404319552844595 / 9007199254740992)"
  "roundDouble (5404319552844595 / 9007199254740992 * 100) = Fin 60"
  "roundDouble (roundTo2 60) = Fin 60"
  by (simp_all add: roundTo2_def rd_eval)

lemma memSample2_arith:
  "roundDouble (rat_of_nat 160) = Fin 160"
  "roundDouble (rat_of_nat 137) = Fin 137"
  "roundTo2 (8092405580431359 / 562949953421312) = 1437 / 100"
  by (simp_all add: roundTo2_def rd_eval)

lemma memSample3_arith:
  "roundDouble (rat_of_nat 13037568) = Fin 13037568"
  "roundDouble (16384000 - 13037568) = Fin 3346432"
  "roundDouble (3346432 / 16384000) = Fin (3679440895561695 / 18014398509481984)"
  "roundDouble (3679440895561695 / 18014398509481984 * 100)
     = Fin (1437281599828787 / 70368744177664)"
  "roundTo2 (1437281599828787 / 70368744177664) = 2042 / 100"
  by (simp_all add: roundTo2_def rd_eval)

lemma memSample_side:
  "''       '' \<noteq> []" "list_all isWhiteSpace ''       ''"
  "'' kB'' = [] \<or> \<not> isDigit (hd '' kB'')"
  "''    '' \<noteq> []" "list_all isWhiteSpace ''    ''"
  "'' '' \<noteq> []" "list_all isWhiteSpace '' ''"
  "''   '' \<noteq> []" "list_all isWhiteSpace ''   ''"
  by (simp_all add: isWhiteSpace_def isDigit_def)

text \<open>
  C6. \<open>parseMemoryUsage\<close> reads the integers after the labels \<open>MemTotal:\<close> and
  \<open>MemAvailable:\<close>: when the first line with each label has the label, white space
  and then the digits of \<open>t\<close> and of \<open>a\<close>, the total \<open>T\<close> and the available amount
  \<open>A\<close> are the binary64 values of \<open>t\<close> and \<open>a\<close>, and for \<open>T\<close> not 0 the result is
  \<open>((T - A) / T) * 100\<close>, each operation rounding to binary64, passed through
  \<open>toFixed(2)\<close> and \<open>parseFloat\<close>: the binary64 value of the usage rounded to two
  decimals. When no line has either label the result is \<open>NaN\<close>. A total of 16384000 kB
  with 6553600 kB available gives 60, the input \<open>invalid data\<close> gives \<open>NaN\<close>, and a
  total of 160 kB with 137 kB available gives 14.37, where the exact quotient 14.375
  would round to 14.38; 16384000 kB with 13037568 kB available gives 20.42.
\<close>

theorem parseMemoryUsage_value:
  "(\<forall>ws1 r1 ws2 r2 t a T A x y u.
      memoryLine ''MemTotal:'' data = Some (''MemTotal:'' @ ws1 @ digits t @ r1)
      \<and> ws1 \<noteq> [] \<and> list_all isWhiteSpace ws1 \<and> (r1 = [] \<or> \<not> isDigit (hd r1))
      \<and> memoryLine ''MemAvailable:'' data = Some (''MemAvailable:'' @ ws2 @ digits a @ r2)
      \<and> ws2 \<noteq> [] \<and> list_all isWhiteSpace ws2 \<and> (r2 = [] \<or> \<not> isDigit (hd r2))
      \<and> roundDouble (rat_of_nat t) = Fin T \<and> roundDouble (rat_of_nat a) = Fin A
      \<and> T \<noteq> 0 \<and> roundDouble (T - A) = Fin x \<and> roundDouble (x / T) = Fin y
      \<and> roundDouble (y * 100) = Fin u \<and> \<bar>u\<bar> < 10 ^ 21
      \<longrightarrow> parseMemoryUsage data = roundDouble (roundTo2 u))
   \<and> (memoryLine ''MemTotal:'' data = None \<and> memoryLine ''MemAvailable:'' data = None
        \<longrightarrow> parseMemoryUsage data = NaN)
   \<and> parseMemoryUsage memSample = Fin 60
   \<and> parseMemoryUsage ''invalid data'' = NaN
   \<and> parseMemoryUsage memSample2 = roundDouble (1437 / 100)
   \<and> roundTo2 ((160 - 137) / 160 * 100) = 1438 / 100
   \<and> roundDouble (1437 / 100) \<noteq> roundDouble (1438 / 100)
   \<and> parseMemoryUsage memSample3 = roundDouble (2042 / 100)"
proof -
  have "parseMemoryUsage memSample = roundDouble (roundTo2 60)"
    by (rule parseMemoryUsage_present [OF memSample_lines(1) memSample_side(1-3)
          memSample_lines(2) memSample_side(4,5,3) memSample_arith(1,2) _ memSample_arith(3-5)])
      simp_all
  then have a: "parseMemoryUsage memSample = Fin 60"
    by (simp only: memSample_arith)
  have "parseMemoryUsage memSample2
      = roundDouble (roundTo2 (8092405580431359 / 562949953421312))"
    by (rule parseMemoryUsage_present [OF memSample2_lines(1) memSample_side(6,7,3)
          memSample2_lines(2) memSample_side(6,7,3) memSample2_arith(1,2) _ sample_arith(5-7)])
      simp_all
  then have b: "parseMemoryUsage memSample2 = roundDouble (1437 / 100)"
    by (simp only: memSample2_arith)
  have "parseMemoryUsage memSample3
      = roundDouble (roundTo2 (1437281599828787 / 70368744177664))"
    by (rule parseMemoryUsage_present [OF memSample3_lines(1) memSample_side(1-3)
          memSample3_lines(2) memSample_side(8,9,3) memSample_arith(1) memSample3_arith(1) _
          memSample3_arith(2-4)])
      simp_all
  then have d: "parseMemoryUsage memSample3 = roundDouble (2042 / 100)"
    by (simp only: memSample3_arith)
  have c: "parseMemoryUsage ''invalid data'' = NaN"
    using invalid_lines by (rule parseMemoryUsage_absent)
  have exact: "roundTo2 ((160 - 137) / 160 * 100) = 1438 / 100"
    by (simp add: roundTo2_def)
  have differ: "roundDouble (1437 / 100) \<noteq> roundDouble (1438 / 100)"
    unfolding sample_arith by simp
  show ?thesis
    using parseMemoryUsage_present [of data] parseMemoryUsage_absent [of data]
      a b c d exact differ
    by blast
qed

theorem parseMemoryUsage_value_witness:
  "memoryLine ''MemTotal:'' memSample2 = Some (''MemTotal:'' @ '' '' @ digits 160 @ '' kB'')
   \<and> memoryLine ''MemAvailable:'' memSample2
     = Some (''MemAvailable:'' @ '' '' @ digits 137 @ '' kB'')
   \<and> roundDouble (rat_of_nat 160) = Fin 160 \<and> roundDouble (rat_of_nat 137) = Fin 137
   \<and> roundDouble (160 - 137) = Fin 23
   \<and> roundDouble (23 / 160) = Fin (2589569785738035 / 18014398509481984)
   \<and> roundDouble (2589569785738035 / 18014398509481984 * 100)
       = Fin (8092405580431359 / 562949953421312)
   \<and> roundTo2 (8092405580431359 / 562949953421312) = 1437 / 100
   \<and> parseMemoryUsage memSample2 = roundDouble (1437 / 100)
   \<and> memoryLine ''MemTotal:'' ''invalid data'' = None
   \<and> memoryLine ''MemAvailable:'' ''invalid data'' = None
   \<and> parseMemoryUsage ''invalid data'' = NaN"
proof -
  have range: "\<bar>8092405580431359 / 562949953421312 :: rat\<bar> < 10 ^ 21" and nz: "(160 :: rat) \<noteq> 0"
    by simp_all
  have "parseMemoryUsage memSample2
      = roundDouble (roundTo2 (8092405580431359 / 562949953421312))"
    using parseMemoryUsage_value [of memSample2, THEN conjunct1, rule_format,
        of "'' ''" 160 "'' kB''" "'' ''" 137 "'' kB''" 160 137 23
          "2589569785738035 / 18014398509481984" "8092405580431359 / 562949953421312"]
      memSample2_lines memSample_side(6,7,3) memSample2_arith(1,2) sample_arith(5-7) range nz
    by blast
  then have "parseMemoryUsage memSample2 = roundDouble (1437 / 100)"
    by (simp only: memSample2_arith)
  moreover have "parseMemoryUsage ''invalid data'' = NaN"
    using parseMemoryUsage_value [of "''invalid data''"] invalid_lines by blast
  ultimately show ?thesis
    using memSample2_lines invalid_lines memSample2_arith sample_arith(5-7) by blast
qed

subsection \<open>Collection\<close>

lemma firstFailure_Some:
  "p \<in> set ps \<Longrightarrow> readFile p = Inl e0 \<Longrightarrow>
     \<exists>e. firstFailure readFile ps = Some e \<and> (\<exists>p' \<in> set ps. readFile p' = Inl e)"
proof (induction ps)
  case Nil
  then show ?case by simp
next
  case (Cons a ps)
  show ?case
  proof (cases "readFile a")
    case (Inl e)
    then show ?thesis by auto
  next
    case (Inr content)
    then have "p \<in> set ps"
      using Cons.prems by auto
    then show ?thesis
      using Cons.IH Cons.prems(2) Inr by auto
  qed
qed

lemma collectTry_failure:
  "firstFailure readFile procFiles = Some e \<Longrightarrow> collectTry readFile m = Inl e"
  by (auto simp: collectTry_def procFiles_def split: sum.splits)

lemma collectAndUpdate_failure:
  "firstFailure readFile procFiles = Some e \<Longrightarrow>
     collectAndUpdate readFile m
       = m\<lparr> errorMessages :=
              errorMessages m @ [''Resource collection error: '' @ errorText e] \<rparr>"
  by (simp add: collectAndUpdate_def collectTry_failure showErrorMessage_def)

text \<open>
  C2. When one of the three reads of a cycle is rejected, \<open>collectAndUpdate\<close> returns
  normally, and the state after it differs from the state before only in the error
  messages, which have grown by exactly one: the text \<open>Resource collection error: \<close>
  followed by the message of the first rejected read. The status text, the tooltip and
  the stored CPU counters are as before.
\<close>

theorem collectAndUpdate_read_failure:
  assumes "p \<in> set procFiles" and "readFile p = Inl e0"
  shows "\<exists>e. firstFailure readFile procFiles = Some e
           \<and> (\<exists>p' \<in> set procFiles. readFile p' = Inl e)
           \<and> collectAndUpdate readFile m
               = m\<lparr> errorMessages :=
                      errorMessages m @ [''Resource collection error: '' @ errorText e] \<rparr>
           \<and> statusBarText (collectAndUpdate readFile m) = statusBarText m
           \<and> statusBarTooltip (collectAndUpdate readFile m) = statusBarTooltip m
           \<and> lastCpuIdle (collectAndUpdate readFile m) = lastCpuIdle m
           \<and> lastCpuTotal (collectAndUpdate readFile m) = lastCpuTotal m
           \<and> length (errorMessages (collectAndUpdate readFile m))
               = Suc (length (errorMessages m))"
proof -
  obtain e where e: "firstFailure readFile procFiles = Some e"
    and p': "\<exists>p' \<in> set procFiles. readFile p' = Inl e"
    using firstFailure_Some [of p procFiles readFile e0] assms by blast
  show ?thesis
    using e p' by (auto simp: collectAndUpdate_failure [OF e])
qed

lemma meminfoUnreadable_first:
  "firstFailure meminfoUnreadable procFiles = Some (ErrorObject ''EACCES: permission denied'')"
  by (simp add: procFiles_def meminfoUnreadable_def procSnapshot_def)

theorem collectAndUpdate_read_failure_witness:
  "''/proc/meminfo'' \<in> set procFiles
   \<and> meminfoUnreadable ''/proc/meminfo'' = Inl (ErrorObject ''EACCES: permission denied'')
   \<and> collectAndUpdate meminfoUnreadable (newResourceMonitor (Fin 1))
       = (newResourceMonitor (Fin 1))
           \<lparr> errorMessages := [''Resource collection error: EACCES: permission denied''] \<rparr>"
proof -
  have a: "''/proc/meminfo'' \<in> set procFiles"
    by (simp add: procFiles_def)
  have b: "meminfoUnreadable ''/proc/meminfo''
      = Inl (ErrorObject ''EACCES: permission denied'')"
    by (simp add: meminfoUnreadable_def)
  have em: "errorMessages (newResourceMonitor (Fin 1)) = []"
    by (simp add: newResourceMonitor_def)
  obtain e where e1: "firstFailure meminfoUnreadable procFiles = Some e"
    and e2: "collectAndUpdate meminfoUnreadable (newResourceMonitor (Fin 1))
      = (newResourceMonitor (Fin 1))
          \<lparr> errorMessages := errorMessages (newResourceMonitor (Fin 1))
               @ [''Resource collection error: '' @ errorText e] \<rparr>"
    using collectAndUpdate_read_failure [of "''/proc/meminfo''" meminfoUnreadable
        "ErrorObject ''EACCES: permission denied''" "newResourceMonitor (Fin 1)"] a b
    by blast
  have "e = ErrorObject ''EACCES: permission denied''"
    using e1 by (simp add: meminfoUnreadable_first)
  then have "collectAndUpdate meminfoUnreadable (newResourceMonitor (Fin 1))
      = (newResourceMonitor (Fin 1))
          \<lparr> errorMessages := [''Resource collection error: EACCES: permission denied''] \<rparr>"
    using e2 by (simp add: em)
  then show ?thesis
    using a b by simp
qed

subsection \<open>Scheduling\<close>

text \<open>
  The scheduler invariant holds for a new monitor, and \<open>start\<close>, \<open>stop\<close>,
  \<open>updateInterval\<close> and \<open>collectAndUpdate\<close> keep it.
\<close>

lemma singleTimer_new: "singleTimer (newResourceMonitor seconds)"
  by (simp add: singleTimer_def newResourceMonitor_def)

lemma stop_idle: "intervalId m = None \<Longrightarrow> stop m = m"
  by (simp add: stop_def)

lemma stop_intervalId: "intervalId (stop m) = None"
  by (simp add: stop_def clearInterval_def split: option.split)

lemma stop_running:
  "intervalId m = Some h \<Longrightarrow>
     stop m = m\<lparr> timers := filter (\<lambda>t. fst t \<noteq> h) (timers m), intervalId := None,
                 statusBarText := [] \<rparr>"
  by (simp add: stop_def clearInterval_def)

lemma stop_singleTimer: "singleTimer m \<Longrightarrow> timers (stop m) = [] \<and> singleTimer (stop m)"
proof (cases "intervalId m")
  case None
  assume "singleTimer m"
  then show ?thesis
    using None by (simp add: stop_idle singleTimer_def)
next
  case (Some h)
  assume "singleTimer m"
  then have "map fst (timers m) = [h]"
    using Some by (simp add: singleTimer_def)
  then have "filter (\<lambda>t. fst t \<noteq> h) (timers m) = []"
    by (cases "timers m") auto
  then show ?thesis
    using Some by (simp add: stop_running singleTimer_def)
qed

lemma start_singleTimer: "singleTimer m \<Longrightarrow> singleTimer (start m)"
proof -
  assume s: "singleTimer m"
  show ?thesis
  proof (cases "intervalId m")
    case None
    then have "timers m = []"
      using s by (simp add: singleTimer_def)
    then show ?thesis
      using None by (simp add: start_def setInterval_def singleTimer_def)
  next
    case (Some h)
    have "timers (stop m) = []" and "intervalId (stop m) = None"
      using stop_singleTimer [OF s] stop_intervalId [of m] by simp_all
    then show ?thesis
      using Some by (simp add: start_def Let_def setInterval_def singleTimer_def)
  qed
qed

lemma updateInterval_singleTimer: "singleTimer m \<Longrightarrow> singleTimer (updateInterval n m)"
proof -
  assume s: "singleTimer m"
  have "singleTimer ((stop m)\<lparr> intervalSeconds := n \<rparr>)"
    using stop_singleTimer [OF s] by (simp add: singleTimer_def stop_intervalId)
  then have "singleTimer (start ((stop m)\<lparr> intervalSeconds := n \<rparr>))"
    by (rule start_singleTimer)
  moreover have "singleTimer (m\<lparr> intervalSeconds := n \<rparr>)"
    using s by (simp add: singleTimer_def split: option.splits)
  ultimately show ?thesis
    by (simp add: updateInterval_def Let_def)
qed

lemma parseCPUUsage_frame:
  "intervalId (snd (parseCPUUsage data m)) = intervalId m
   \<and> timers (snd (parseCPUUsage data m)) = timers m
   \<and> nextTimer (snd (parseCPUUsage data m)) = nextTimer m
   \<and> displayOptions (snd (parseCPUUsage data m)) = displayOptions m"
  by (cases "aggregateLine data") (simp_all add: parseCPUUsage_absent parseCPUUsage_snd)

lemma collectAndUpdate_frame:
  "intervalId (collectAndUpdate readFile m) = intervalId m
   \<and> timers (collectAndUpdate readFile m) = timers m
   \<and> nextTimer (collectAndUpdate readFile m) = nextTimer m"
  by (simp add: collectAndUpdate_def collectTry_def showErrorMessage_def updateStatusBar_def
      Let_def case_prod_beta parseCPUUsage_frame split: sum.splits)

lemma collectAndUpdate_singleTimer:
  "singleTimer m \<Longrightarrow> singleTimer (collectAndUpdate readFile m)"
  using collectAndUpdate_frame [of readFile m]
  by (simp add: singleTimer_def split: option.splits)

lemma start_new:
  "start (newResourceMonitor seconds)
     = (newResourceMonitor seconds)
         \<lparr> timers := [(0, jsmul seconds (Fin 1000))], nextTimer := Suc 0,
           intervalId := Some 0 \<rparr>"
  by (simp add: start_def setInterval_def newResourceMonitor_def)

text \<open>One cycle on the host \<open>procSnapshot\<close>, from a monitor with no stored counters.\<close>

lemma procSnapshot_memory: "parseMemoryUsage memSample = Fin 60"
proof -
  have "parseMemoryUsage memSample = roundDouble (roundTo2 60)"
    by (rule parseMemoryUsage_present [OF memSample_lines(1) memSample_side(1-3)
          memSample_lines(2) memSample_side(4,5,3) memSample_arith(1,2) _ memSample_arith(3-5)])
      simp_all
  then show ?thesis
    by (simp only: memSample_arith)
qed

lemma procSnapshot_load:
  "parseLoadAverages ''1.25 0.75 0.50 2/123 12345'' = [Fin (5 / 4), Fin (3 / 4), Fin (1 / 2)]"
  by (simp add: parseLoadAverages_def split.simps read_eval) (simp add: rd_eval)

lemma procSnapshot_render:
  "statusBarText (updateStatusBar (Fin 0) (Fin 60) [Fin (5 / 4), Fin (3 / 4), Fin (1 / 2)] m)
     = (if showCpu (displayOptions m) \<and> showMemory (displayOptions m)
           \<and> showLoad (displayOptions m)
        then ''CPU: 0% | MEM: 60% | Load: 1.25, 0.75, 0.5''
        else statusBarText (updateStatusBar (Fin 0) (Fin 60)
               [Fin (5 / 4), Fin (3 / 4), Fin (1 / 2)] m))"
  by (simp add: updateStatusBar_def print_eval rd_eval)

lemma procSnapshot_cycle:
  assumes "lastCpuIdle m = Null"
    and "displayOptions m = \<lparr> showCpu = True, showMemory = True, showLoad = True \<rparr>"
  shows "statusBarText (collectAndUpdate procSnapshot m)
         = ''CPU: 0% | MEM: 60% | Load: 1.25, 0.75, 0.5''"
proof -
  have cpu: "parseCPUUsage statSample1 m
      = (Fin 0, m\<lparr> lastCpuIdle := Num (Fin 4000), lastCpuTotal := Num (Fin 8100) \<rparr>)"
    using assms(1)
    by (simp add: parseCPUUsage_found [OF statSample1_line] statSample1_counters)
  have "collectAndUpdate procSnapshot m
      = updateStatusBar (Fin 0) (Fin 60) [Fin (5 / 4), Fin (3 / 4), Fin (1 / 2)]
          (m\<lparr> lastCpuIdle := Num (Fin 4000), lastCpuTotal := Num (Fin 8100) \<rparr>)"
    by (simp add: collectAndUpdate_def collectTry_def procSnapshot_def cpu
        procSnapshot_memory procSnapshot_load)
  then show ?thesis
    using assms(2) by (simp add: procSnapshot_render)
qed

text \<open>
  C9, as the code has it. After \<open>stop\<close> the monitor holds no timer, and the timer it
  held is no longer scheduled; under the scheduler invariant no timer is scheduled at
  all. When a timer was active, \<open>stop\<close> clears the status text; when none was active,
  \<open>stop\<close> changes nothing. Calling \<open>stop\<close> twice in a row is the same as calling it
  once.
\<close>

theorem stop_effect:
  "intervalId (stop m) = None
   \<and> (\<forall>h. intervalId m = Some h \<longrightarrow>
         h \<notin> fst ` set (timers (stop m)) \<and> statusBarText (stop m) = [])
   \<and> (intervalId m = None \<longrightarrow> stop m = m)
   \<and> (singleTimer m \<longrightarrow> timers (stop m) = [])
   \<and> stop (stop m) = stop m"
proof -
  have "h \<notin> fst ` set (timers (stop m)) \<and> statusBarText (stop m) = []"
    if "intervalId m = Some h" for h
    using that by (auto simp: stop_running)
  moreover have "stop (stop m) = stop m"
    by (rule stop_idle) (rule stop_intervalId)
  ultimately show ?thesis
    using stop_intervalId [of m] stop_idle [of m] stop_singleTimer [of m] by blast
qed

theorem stop_effect_witness:
  "intervalId (collectAndUpdate procSnapshot (start (newResourceMonitor (Fin 1)))) = Some 0
   \<and> singleTimer (collectAndUpdate procSnapshot (start (newResourceMonitor (Fin 1))))
   \<and> statusBarText (collectAndUpdate procSnapshot (start (newResourceMonitor (Fin 1))))
       = ''CPU: 0% | MEM: 60% | Load: 1.25, 0.75, 0.5''
   \<and> statusBarText (stop (collectAndUpdate procSnapshot (start (newResourceMonitor (Fin 1)))))
       = []
   \<and> timers (stop (collectAndUpdate procSnapshot (start (newResourceMonitor (Fin 1))))) = []
   \<and> intervalId (newResourceMonitor (Fin 1)) = None
   \<and> stop (newResourceMonitor (Fin 1)) = newResourceMonitor (Fin 1)"
proof -
  define m where "m = collectAndUpdate procSnapshot (start (newResourceMonitor (Fin 1)))"
  have i: "intervalId m = Some 0"
    unfolding m_def by (simp add: collectAndUpdate_frame start_new)
  have s: "singleTimer m"
    unfolding m_def
    by (intro collectAndUpdate_singleTimer start_singleTimer singleTimer_new)
  have t: "statusBarText m = ''CPU: 0% | MEM: 60% | Load: 1.25, 0.75, 0.5''"
    unfolding m_def
    by (rule procSnapshot_cycle; simp add: start_new; simp add: newResourceMonitor_def)
  have n: "intervalId (newResourceMonitor (Fin 1)) = None"
    by (simp add: newResourceMonitor_def)
  have "statusBarText (stop m) = [] \<and> timers (stop m) = []"
    using stop_effect [of m] i s by blast
  moreover have "stop (newResourceMonitor (Fin 1)) = newResourceMonitor (Fin 1)"
    using stop_effect [of "newResourceMonitor (Fin 1)"] n by blast
  ultimately show ?thesis
    using i s t n unfolding m_def by blast
qed

text \<open>
  C9 as stated fails: a cycle that runs while no timer is active renders the status
  text, and \<open>stop\<close> then leaves that text in place.
\<close>

theorem stop_effect_counterexample:
  "intervalId (collectAndUpdate procSnapshot (newResourceMonitor (Fin 1))) = None
   \<and> statusBarText (stop (collectAndUpdate procSnapshot (newResourceMonitor (Fin 1))))
       = ''CPU: 0% | MEM: 60% | Load: 1.25, 0.75, 0.5''
   \<and> statusBarText (stop (collectAndUpdate procSnapshot (newResourceMonitor (Fin 1)))) \<noteq> []"
proof -
  define m where "m = collectAndUpdate procSnapshot (newResourceMonitor (Fin 1))"
  have i: "intervalId m = None"
    unfolding m_def by (simp add: collectAndUpdate_frame newResourceMonitor_def)
  have t: "statusBarText m = ''CPU: 0% | MEM: 60% | Load: 1.25, 0.75, 0.5''"
    unfolding m_def
    by (rule procSnapshot_cycle) (simp_all add: newResourceMonitor_def)
  have "stop m = m"
    using i by (rule stop_idle)
  then show ?thesis
    using i t unfolding m_def by simp
qed

end
